theory Spec2Isabelle
  imports Main "HOL-Library.AList"
begin

section \<open>The object store\<close>

text \<open>
  The library keeps three kinds of mutable objects: \<^verbatim>\<open>VirtualDOM\<close> instances,
  \<^verbatim>\<open>VirtualElement\<close> instances and the plain objects held in
  \<^verbatim>\<open>VirtualElement.attributes\<close>. All three are shared by reference, so the model keeps
  one store per kind, addressed by natural numbers, with an allocation counter each. A
  reference of the program is an address of the model.

  Arrays (\<^verbatim>\<open>children\<close>, \<^verbatim>\<open>directChildren\<close>) are never shared between two objects
  (every constructor and \<^verbatim>\<open>Array.prototype.map\<close> make a new array), so they are list-valued
  fields. The attribute object is an association list in insertion order, which is the
  order \<^verbatim>\<open>for ... in\<close> visits string keys that are not array indices; attribute names are
  taken not to be names of \<^verbatim>\<open>Object.prototype\<close>. An attribute value is a string, or
  \<^verbatim>\<open>undefined\<close> (which only the \<^verbatim>\<open>dataset\<close> getter ever stores).

  \<^verbatim>\<open>parent\<close> is \<^verbatim>\<open>undefined\<close>, \<^verbatim>\<open>null\<close> or an element; the program only ever tests it
  for truthiness and copies it, so both empty values are \<open>None\<close>.

  Callbacks are opaque to the library. A callback is an identifier; calling a tree-change
  listener is recorded in the field \<open>calls\<close> of the store with the two arguments it
  receives and with the objects as they are at that moment (a \<open>view\<close>: the three
  stores, which is all that the listener can read through its arguments), and listeners
  are taken to observe only (they neither mutate the store nor throw). The shadow tree of
  an element, its materialisation into a browser document and
  the style parser are not modelled.
\<close>

type_synonym ref = nat
type_synonym callback = nat

datatype js_error = NotFound | NoParent | RangeError | TypeError

datatype jsval = Undefined | Str string

record VirtualElement =
  tagName :: string
  isRemoved :: bool
  attributes :: ref
  children :: "ref list"
  parent :: "ref option"
  parentDocument :: ref
  innerText :: string
  eventListeners :: "string \<Rightarrow> callback list option"

record VirtualDOM =
  directChildren :: "ref list"
  dom_children :: "ref list"
  treeChangeListeners :: "callback list"

record view =
  doms_then :: "ref \<Rightarrow> VirtualDOM"
  elems_then :: "ref \<Rightarrow> VirtualElement"
  attrs_then :: "ref \<Rightarrow> (string \<times> jsval) list"

record heap =
  doms :: "ref \<Rightarrow> VirtualDOM"
  elems :: "ref \<Rightarrow> VirtualElement"
  attrs :: "ref \<Rightarrow> (string \<times> jsval) list"
  next_dom :: nat
  next_elem :: nat
  next_attr :: nat
  calls :: "(callback \<times> ref \<times> ref \<times> view) list"

definition view_of :: "heap \<Rightarrow> view" where
  "view_of s = \<lparr>doms_then = doms s, elems_then = elems s, attrs_then = attrs s\<rparr>"

definition upd_dom :: "heap \<Rightarrow> ref \<Rightarrow> (VirtualDOM \<Rightarrow> VirtualDOM) \<Rightarrow> heap" where
  "upd_dom s d f = s\<lparr>doms := (doms s)(d := f (doms s d))\<rparr>"

definition upd_elem :: "heap \<Rightarrow> ref \<Rightarrow> (VirtualElement \<Rightarrow> VirtualElement) \<Rightarrow> heap" where
  "upd_elem s e f = s\<lparr>elems := (elems s)(e := f (elems s e))\<rparr>"

definition upd_attrs ::
  "heap \<Rightarrow> ref \<Rightarrow> ((string \<times> jsval) list \<Rightarrow> (string \<times> jsval) list) \<Rightarrow> heap" where
  "upd_attrs s a f = s\<lparr>attrs := (attrs s)(a := f (attrs s a))\<rparr>"

definition empty_dom :: VirtualDOM where
  "empty_dom = \<lparr>directChildren = [], dom_children = [], treeChangeListeners = []\<rparr>"

definition empty_elem :: VirtualElement where
  "empty_elem = \<lparr>tagName = [], isRemoved = False, attributes = 0, children = [],
     parent = None, parentDocument = 0, innerText = [], eventListeners = (\<lambda>_. None)\<rparr>"

definition empty_heap :: heap where
  "empty_heap = \<lparr>doms = (\<lambda>_. empty_dom), elems = (\<lambda>_. empty_elem), attrs = (\<lambda>_. []),
     next_dom = 0, next_elem = 0, next_attr = 0, calls = []\<rparr>"

subsection \<open>Array primitives\<close>

text \<open>
  \<^verbatim>\<open>indexOf\<close> returns the first position of an element, or \<open>-1\<close>.
  \<^verbatim>\<open>splice(start, deleteCount, ...items)\<close> counts a negative start from the end of the array
  and clamps both numbers; the model returns the array after the call.
  \<^verbatim>\<open>arr[i] = v\<close> overwrites the element at \<open>i\<close> when there is one and appends when
  \<open>i\<close> is the length; at \<open>-1\<close> it defines the property \<^verbatim>\<open>"-1"\<close>, which is not an element
  of the array: its length and its elements stay as they are. The program only assigns at
  \<open>0\<close>, at \<open>length - 1\<close> and at a result of \<^verbatim>\<open>indexOf\<close>, so an index beyond the length
  does not occur.
\<close>

fun indexOf :: "'a list \<Rightarrow> 'a \<Rightarrow> int" where
  "indexOf [] x = - 1"
| "indexOf (y # ys) x =
     (if y = x then 0 else (let i = indexOf ys x in if i = - 1 then - 1 else i + 1))"

definition array_includes :: "'a list \<Rightarrow> 'a \<Rightarrow> bool" where
  "array_includes xs x = (x \<in> set xs)"

definition splice :: "'a list \<Rightarrow> int \<Rightarrow> nat \<Rightarrow> 'a list \<Rightarrow> 'a list" where
  "splice xs start deleteCount items =
     (let len = int (length xs);
          actualStart = nat (if start < 0 then max (len + start) 0 else min start len);
          actualDelete = min deleteCount (length xs - actualStart)
      in take actualStart xs @ items @ drop (actualStart + actualDelete) xs)"

definition assign_at :: "'a list \<Rightarrow> int \<Rightarrow> 'a \<Rightarrow> 'a list" where
  "assign_at xs i v =
     (if 0 \<le> i \<and> i < int (length xs) then xs[nat i := v]
      else if i = int (length xs) then xs @ [v]
      else xs)"

section \<open>VirtualDOM\<close>

definition new_VirtualDOM :: "heap \<Rightarrow> heap \<times> ref" where
  "new_VirtualDOM s =
     (let d = next_dom s
      in (s\<lparr>doms := (doms s)(d := empty_dom), next_dom := Suc d\<rparr>, d))"

definition new_VirtualElement :: "heap \<Rightarrow> string \<Rightarrow> ref \<Rightarrow> heap \<times> ref" where
  "new_VirtualElement s tag d =
     (let e = next_elem s; a = next_attr s
      in (s\<lparr>elems := (elems s)(e := \<lparr>tagName = tag, isRemoved = False, attributes = a,
                 children = [], parent = None, parentDocument = d, innerText = [],
                 eventListeners = (\<lambda>_. None)\<rparr>),
            attrs := (attrs s)(a := [(''class'', Str [])]),
            next_elem := Suc e, next_attr := Suc a\<rparr>, e))"

definition createElement :: "heap \<Rightarrow> ref \<Rightarrow> string \<Rightarrow> heap \<times> ref" where
  "createElement s d tag = new_VirtualElement s tag d"

definition VirtualDOM_removeChild :: "heap \<Rightarrow> ref \<Rightarrow> ref \<Rightarrow> js_error + heap" where
  "VirtualDOM_removeChild s d element =
     (let index = indexOf (directChildren (doms s d)) element
      in if index \<noteq> - 1
         then Inr (upd_elem
                (upd_dom s d (\<lambda>t. t\<lparr>directChildren := splice (directChildren t) index 1 []\<rparr>))
                element (\<lambda>x. x\<lparr>isRemoved := True\<rparr>))
         else (let index2 = indexOf (dom_children (doms s d)) element
               in if index2 = - 1 then Inl NotFound
                  else Inr (upd_elem
                         (upd_dom s d (\<lambda>t. t\<lparr>dom_children := splice (dom_children t) index2 1 []\<rparr>))
                         element (\<lambda>x. x\<lparr>isRemoved := True\<rparr>))))"

definition VirtualDOM_appendChild :: "heap \<Rightarrow> ref \<Rightarrow> ref \<Rightarrow> heap" where
  "VirtualDOM_appendChild s d child =
     (if isRemoved (elems s child) then s
      else upd_elem (upd_dom s d (\<lambda>t. t\<lparr>directChildren := directChildren t @ [child]\<rparr>))
             child (\<lambda>x. x\<lparr>parent := None\<rparr>))"

definition VirtualDOM_insertBefore :: "heap \<Rightarrow> ref \<Rightarrow> ref \<Rightarrow> ref \<Rightarrow> heap" where
  "VirtualDOM_insertBefore s d child reference =
     (if isRemoved (elems s child) then s
      else (let index = indexOf (directChildren (doms s d)) reference
            in upd_dom s d (\<lambda>t. t\<lparr>directChildren := splice (directChildren t) index 0 [child]\<rparr>)))"

definition attribute_of :: "heap \<Rightarrow> ref \<Rightarrow> string \<Rightarrow> jsval" where
  "attribute_of s e name =
     (case map_of (attrs s (attributes (elems s e))) name of None \<Rightarrow> Undefined | Some v \<Rightarrow> v)"

definition VirtualDOM_querySelectorAll :: "heap \<Rightarrow> ref \<Rightarrow> string \<Rightarrow> ref list" where
  "VirtualDOM_querySelectorAll s d selector =
     (let check = filter (\<lambda>e. tagName (elems s e) = selector) (directChildren (doms s d))
      in if length check > 0 then check
         else filter (\<lambda>e. tagName (elems s e) = selector) (dom_children (doms s d)))"

definition first_of :: "'a list \<Rightarrow> 'a option" where
  "first_of xs = (case xs of [] \<Rightarrow> None | x # _ \<Rightarrow> Some x)"

definition VirtualDOM_querySelector :: "heap \<Rightarrow> ref \<Rightarrow> string \<Rightarrow> ref option" where
  "VirtualDOM_querySelector s d selector =
     (let check = filter (\<lambda>e. tagName (elems s e) = selector) (directChildren (doms s d))
      in if length check > 0 then first_of check
         else first_of (filter (\<lambda>e. tagName (elems s e) = selector) (dom_children (doms s d))))"

definition VirtualDOM_getElementById :: "heap \<Rightarrow> ref \<Rightarrow> string \<Rightarrow> ref option" where
  "VirtualDOM_getElementById s d ident =
     (let check = filter (\<lambda>e. attribute_of s e ''id'' = Str ident) (directChildren (doms s d))
      in if length check > 0 then first_of check
         else first_of (filter (\<lambda>e. attribute_of s e ''id'' = Str ident) (dom_children (doms s d))))"

definition VirtualDOM_getElementsByClassName :: "heap \<Rightarrow> ref \<Rightarrow> string \<Rightarrow> ref list" where
  "VirtualDOM_getElementsByClassName s d className =
     (let check = filter (\<lambda>e. attribute_of s e ''class'' = Str className) (directChildren (doms s d))
      in if length check > 0 then check
         else filter (\<lambda>e. attribute_of s e ''class'' = Str className) (dom_children (doms s d)))"

definition VirtualDOM_replaceChild :: "heap \<Rightarrow> ref \<Rightarrow> ref \<Rightarrow> ref \<Rightarrow> js_error + heap" where
  "VirtualDOM_replaceChild s d child oldChild =
     (if isRemoved (elems s child) then Inr s
      else if array_includes (directChildren (doms s d)) oldChild
      then (let index = indexOf (directChildren (doms s d)) oldChild
            in Inr (upd_dom s d (\<lambda>t. t\<lparr>directChildren := assign_at (directChildren t) index child\<rparr>)))
      else if array_includes (dom_children (doms s d)) oldChild
      then (let index = indexOf (dom_children (doms s d)) oldChild
            in Inr (upd_dom s d (\<lambda>t. t\<lparr>dom_children := assign_at (dom_children t) index child\<rparr>)))
      else Inl NotFound)"

definition notifyTreeChange :: "heap \<Rightarrow> ref \<Rightarrow> ref \<Rightarrow> ref \<Rightarrow> heap" where
  "notifyTreeChange s d e e2 =
     s\<lparr>calls := calls s @ map (\<lambda>c. (c, e, e2, view_of s)) (treeChangeListeners (doms s d))\<rparr>"

definition onTreeChange :: "heap \<Rightarrow> ref \<Rightarrow> callback \<Rightarrow> heap" where
  "onTreeChange s d cb = upd_dom s d (\<lambda>t. t\<lparr>treeChangeListeners := treeChangeListeners t @ [cb]\<rparr>)"

section \<open>VirtualElement\<close>

text \<open>
  \<^verbatim>\<open>cloneNode\<close> calls itself on every child, so it returns only when the element's
  subtree is finite and shallower than the call stack. The parameter \<open>depth\<close> is the number
  of nested \<^verbatim>\<open>cloneNode\<close> calls the stack has room for; when it is used up the program
  throws a \<^verbatim>\<open>RangeError\<close>. Every operation hands the \<open>depth\<close> it was given to each
  \<^verbatim>\<open>cloneNode\<close> it starts, also to the one inside a nested \<^verbatim>\<open>removeChild\<close>.
  \<^verbatim>\<open>_duringClone().setAttributes\<close> stores the attribute object it is given, so the clone
  holds the original's attribute object itself.

  An operation that throws returns \<open>Inl\<close> of the error. In the structural operations and
  the attribute and text setters every \<^verbatim>\<open>throw\<close> comes before the first write to an object
  that existed at the call (a clone allocated before it is garbage), so there \<open>Inl\<close> stands
  for "the store as it was". The \<^verbatim>\<open>dataset\<close> getter alone may have run a setter before it
  throws.
\<close>

fun cloneNode :: "nat \<Rightarrow> heap \<Rightarrow> ref \<Rightarrow> bool \<Rightarrow> js_error + heap \<times> ref"
  and cloneNodes :: "nat \<Rightarrow> heap \<Rightarrow> ref list \<Rightarrow> js_error + heap \<times> ref list" where
  "cloneNode 0 s e deep = Inl RangeError"
| "cloneNode (Suc depth) s e deep =
     (let clone = next_elem s;
          s1 = fst (new_VirtualElement s (tagName (elems s e)) (parentDocument (elems s e)));
          s2 = upd_elem s1 clone (\<lambda>x. x\<lparr>attributes := attributes (elems s1 e)\<rparr>);
          s3 = upd_elem s2 clone (\<lambda>x. x\<lparr>parent := parent (elems s2 e)\<rparr>);
          s4 = upd_elem s3 clone (\<lambda>x. x\<lparr>innerText := innerText (elems s3 e)\<rparr>)
      in if deep
         then (case cloneNodes depth s4 (children (elems s4 e)) of
                 Inl err \<Rightarrow> Inl err
               | Inr r \<Rightarrow> Inr (upd_elem (fst r) clone (\<lambda>x. x\<lparr>children := snd r\<rparr>), clone))
         else Inr (s4, clone))"
| "cloneNodes depth s [] = Inr (s, [])"
| "cloneNodes depth s (c # cs) =
     (case cloneNode depth s c True of
        Inl err \<Rightarrow> Inl err
      | Inr r \<Rightarrow>
          (case cloneNodes depth (fst r) cs of
             Inl err \<Rightarrow> Inl err
           | Inr r' \<Rightarrow> Inr (fst r', snd r # snd r')))"

definition notify_self :: "heap \<Rightarrow> ref \<Rightarrow> ref \<Rightarrow> heap" where
  "notify_self s e oldVer = notifyTreeChange s (parentDocument (elems s e)) e oldVer"

definition VirtualElement_setAttribute ::
  "nat \<Rightarrow> heap \<Rightarrow> ref \<Rightarrow> string \<Rightarrow> jsval \<Rightarrow> js_error + heap" where
  "VirtualElement_setAttribute depth s e name v =
     (case cloneNode depth s e True of
        Inl err \<Rightarrow> Inl err
      | Inr (s1, oldVer) \<Rightarrow>
          Inr (notify_self
                 (upd_attrs s1 (attributes (elems s1 e)) (AList.update name v)) e oldVer))"

definition VirtualElement_getAttribute :: "heap \<Rightarrow> ref \<Rightarrow> string \<Rightarrow> jsval" where
  "VirtualElement_getAttribute s e name = attribute_of s e name"



definition VirtualElement_appendChild ::
  "nat \<Rightarrow> heap \<Rightarrow> ref \<Rightarrow> ref \<Rightarrow> js_error + heap" where
  "VirtualElement_appendChild depth s e child =
     (case cloneNode depth s e True of
        Inl err \<Rightarrow> Inl err
      | Inr (s1, oldVer) \<Rightarrow>
          (let s2 = upd_elem s1 e (\<lambda>x. x\<lparr>children := children x @ [child]\<rparr>);
               s3 = upd_elem s2 child (\<lambda>x. x\<lparr>parent := Some e\<rparr>);
               s4 = upd_dom s3 (parentDocument (elems s3 e))
                      (\<lambda>t. t\<lparr>dom_children := dom_children t @ [child]\<rparr>)
           in Inr (notify_self s4 e oldVer)))"

definition VirtualElement_replaceChild ::
  "nat \<Rightarrow> heap \<Rightarrow> ref \<Rightarrow> ref \<Rightarrow> ref \<Rightarrow> js_error + heap" where
  "VirtualElement_replaceChild depth s e child oldChild =
     (if \<not> array_includes (children (elems s e)) oldChild then Inl NotFound
      else (case cloneNode depth s e True of
              Inl err \<Rightarrow> Inl err
            | Inr (s1, oldVer) \<Rightarrow>
                (let s2 = upd_elem s1 e
                            (\<lambda>x. x\<lparr>children :=
                                   assign_at (children x) (indexOf (children x) oldChild) child\<rparr>);
                     s3 = upd_elem s2 child (\<lambda>x. x\<lparr>parent := Some e\<rparr>);
                     s4 = upd_dom s3 (parentDocument (elems s3 e))
                            (\<lambda>t. t\<lparr>dom_children :=
                                   assign_at (dom_children t) (indexOf (dom_children t) oldChild) child\<rparr>)
                 in Inr (notify_self s4 e oldVer))))"

definition VirtualElement_prepend ::
  "nat \<Rightarrow> heap \<Rightarrow> ref \<Rightarrow> ref \<Rightarrow> js_error + heap" where
  "VirtualElement_prepend depth s e element =
     (case cloneNode depth s e True of
        Inl err \<Rightarrow> Inl err
      | Inr (s1, oldVer) \<Rightarrow>
          (let d = parentDocument (elems s1 e)
           in if array_includes (directChildren (doms s1 d)) e
              then (let index = indexOf (directChildren (doms s1 d)) e;
                        s2 = upd_dom s1 d
                               (\<lambda>t. t\<lparr>directChildren := splice (directChildren t) index 0 [element]\<rparr>);
                        s3 = upd_elem s2 element (\<lambda>x. x\<lparr>parent := Some e\<rparr>)
                    in Inr (notify_self s3 e oldVer))
              else (case parent (elems s1 e) of
                      Some p \<Rightarrow>
                        (let index = indexOf (children (elems s1 p)) e;
                             s2 = upd_elem s1 p
                                    (\<lambda>x. x\<lparr>children := splice (children x) index 0 [element]\<rparr>);
                             s3 = upd_dom s2 d
                                    (\<lambda>t. t\<lparr>dom_children :=
                                           splice (dom_children t) (indexOf (dom_children t) e) 0 [element]\<rparr>)
                         in Inr (notify_self s3 e oldVer))
                    | None \<Rightarrow> Inl NoParent)))"

definition VirtualElement_removeChild ::
  "nat \<Rightarrow> heap \<Rightarrow> ref \<Rightarrow> ref \<Rightarrow> js_error + heap" where
  "VirtualElement_removeChild depth s e child =
     (case cloneNode depth s e True of
        Inl err \<Rightarrow> Inl err
      | Inr (s1, oldVer) \<Rightarrow>
          (let s2 = upd_elem s1 e
                      (\<lambda>x. x\<lparr>children := splice (children x) (indexOf (children x) child) 1 []\<rparr>);
               s3 = upd_elem s2 child (\<lambda>x. x\<lparr>isRemoved := True\<rparr>);
               s4 = upd_dom s3 (parentDocument (elems s3 e))
                      (\<lambda>t. t\<lparr>dom_children :=
                             splice (dom_children t) (indexOf (dom_children t) child) 1 []\<rparr>)
           in Inr (notify_self s4 e oldVer)))"

definition VirtualElement_remove :: "nat \<Rightarrow> heap \<Rightarrow> ref \<Rightarrow> js_error + heap" where
  "VirtualElement_remove depth s e =
     (case cloneNode depth s e True of
        Inl err \<Rightarrow> Inl err
      | Inr (s1, oldVer) \<Rightarrow>
          (if array_includes (directChildren (doms s1 (parentDocument (elems s1 e)))) e
           then (case VirtualDOM_removeChild s1 (parentDocument (elems s1 e)) e of
                   Inl err \<Rightarrow> Inl err
                 | Inr s2 \<Rightarrow> Inr (notify_self s2 e oldVer))
           else (case parent (elems s1 e) of
                   Some p \<Rightarrow>
                     (case VirtualElement_removeChild depth s1 p e of
                        Inl err \<Rightarrow> Inl err
                      | Inr s2 \<Rightarrow> Inr (notify_self s2 e oldVer))
                 | None \<Rightarrow>
                     Inr (notify_self (upd_elem s1 e (\<lambda>x. x\<lparr>isRemoved := True\<rparr>)) e oldVer))))"





subsection \<open>Queries on an element\<close>

text \<open>
  With the selector \<^verbatim>\<open>"*"\<close> the closure \<^verbatim>\<open>r\<close> pushes a node and then visits its children;
  \<open>collect\<close> is \<^verbatim>\<open>r\<close> and \<open>collect_all\<close> is the \<^verbatim>\<open>forEach\<close> around it, with the array
  \<^verbatim>\<open>arr\<close> passed along. With any other selector the closure \<^verbatim>\<open>r\<close> of the second branch is
  defined and never called, so \<^verbatim>\<open>val\<close> stays \<^verbatim>\<open>check\<close>.
\<close>

fun collect :: "nat \<Rightarrow> heap \<Rightarrow> ref \<Rightarrow> ref list \<Rightarrow> js_error + ref list"
  and collect_all :: "nat \<Rightarrow> heap \<Rightarrow> ref list \<Rightarrow> ref list \<Rightarrow> js_error + ref list" where
  "collect 0 s c arr = Inl RangeError"
| "collect (Suc depth) s c arr = collect_all depth s (children (elems s c)) (arr @ [c])"
| "collect_all depth s [] arr = Inr arr"
| "collect_all depth s (c # cs) arr =
     (case collect depth s c arr of
        Inl err \<Rightarrow> Inl err
      | Inr arr' \<Rightarrow> collect_all depth s cs arr')"

definition VirtualElement_querySelectorAll ::
  "nat \<Rightarrow> heap \<Rightarrow> ref \<Rightarrow> string \<Rightarrow> js_error + ref list" where
  "VirtualElement_querySelectorAll depth s e selector =
     (if selector = ''*'' then collect_all depth s (children (elems s e)) []
      else (let check = filter (\<lambda>x. tagName (elems s x) = selector) (children (elems s e));
                val = check
            in Inr val))"

definition VirtualElement_querySelector ::
  "nat \<Rightarrow> heap \<Rightarrow> ref \<Rightarrow> string \<Rightarrow> js_error + ref option" where
  "VirtualElement_querySelector depth s e selector =
     (case VirtualElement_querySelectorAll depth s e selector of
        Inl err \<Rightarrow> Inl err
      | Inr xs \<Rightarrow> Inr (first_of xs))"

subsection \<open>Events\<close>

text \<open>
  A listener receives the event object and may change it (\<^verbatim>\<open>stopPropagation\<close> clears
  \<^verbatim>\<open>bubbles\<close>). What a listener does to the event is the parameter \<open>run\<close>;
  \<open>run_callbacks\<close> is the loop of \<^verbatim>\<open>dispatchEvent\<close>, returning the event and the listeners
  it has called, in order. Iterating over a missing listener list throws a
  \<^verbatim>\<open>TypeError\<close>. Event types, like attribute names, are taken not to be names of
  \<^verbatim>\<open>Object.prototype\<close>, under which a lookup finds the inherited member.
\<close>

record VirtualEvent =
  event_type :: string
  trusted :: bool
  bubbles :: bool
  defaultPrevented :: bool
  target :: "ref option"
  isCustom :: bool

definition new_VirtualEvent :: "string \<Rightarrow> bool option \<Rightarrow> bool option \<Rightarrow> VirtualEvent" where
  "new_VirtualEvent name opt_trusted opt_bubbles =
     \<lparr>event_type = name,
      trusted = (case opt_trusted of None \<Rightarrow> False | Some b \<Rightarrow> b),
      bubbles = (case opt_bubbles of None \<Rightarrow> True | Some b \<Rightarrow> b),
      defaultPrevented = False, target = None, isCustom = False\<rparr>"

definition stopPropagation :: "VirtualEvent \<Rightarrow> VirtualEvent" where
  "stopPropagation ev = ev\<lparr>bubbles := False\<rparr>"

definition addEventListener :: "heap \<Rightarrow> ref \<Rightarrow> string \<Rightarrow> callback \<Rightarrow> heap" where
  "addEventListener s e eventName cb =
     upd_elem s e (\<lambda>x. x\<lparr>eventListeners := (eventListeners x)(eventName \<mapsto>
        (case eventListeners x eventName of None \<Rightarrow> [] | Some cbs \<Rightarrow> cbs) @ [cb])\<rparr>)"

fun run_callbacks ::
  "(callback \<Rightarrow> VirtualEvent \<Rightarrow> VirtualEvent) \<Rightarrow> callback list \<Rightarrow> VirtualEvent \<Rightarrow> callback list
     \<Rightarrow> VirtualEvent \<times> callback list" where
  "run_callbacks run [] ev called = (ev, called)"
| "run_callbacks run (cb # cbs) ev called =
     (let ev' = run cb ev
      in if \<not> bubbles ev' then (ev', called @ [cb])
         else run_callbacks run cbs ev' (called @ [cb]))"

definition dispatchEvent ::
  "(callback \<Rightarrow> VirtualEvent \<Rightarrow> VirtualEvent) \<Rightarrow> heap \<Rightarrow> ref \<Rightarrow> VirtualEvent
     \<Rightarrow> js_error + VirtualEvent \<times> callback list" where
  "dispatchEvent run s e event =
     (let ev = event\<lparr>target := Some e\<rparr>
      in case eventListeners (elems s e) (event_type ev) of
           None \<Rightarrow> Inl TypeError
         | Some cbs \<Rightarrow> Inr (run_callbacks run cbs ev []))"

subsection \<open>The dataset getter\<close>

text \<open>
  The getter walks the attribute keys. For a key \<^verbatim>\<open>ky\<close> that starts with \<^verbatim>\<open>data-\<close> it
  computes the camel-case name and first assigns \<^verbatim>\<open>attrs[name] = v\<close>, then redefines
  \<^verbatim>\<open>name\<close> as an accessor bound to \<^verbatim>\<open>ky\<close>. The returned object is the association list of
  the names with the key each accessor is bound to. When \<^verbatim>\<open>name\<close> is already an accessor
  (two keys with one camel-case name), the assignment runs the earlier accessor's setter,
  which is a \<^verbatim>\<open>setAttribute\<close> on the earlier key. \<^verbatim>\<open>term[0].toUpperCase()\<close> throws a
  \<^verbatim>\<open>TypeError\<close> on an empty term; the letter case conversion of the host is the
  parameter \<open>toUpperCase\<close>.
\<close>

definition startsWith :: "string \<Rightarrow> string \<Rightarrow> bool" where
  "startsWith str prefix = (take (length prefix) str = prefix)"

fun split_on :: "char \<Rightarrow> string \<Rightarrow> string list" where
  "split_on sep [] = [[]]"
| "split_on sep (x # xs) =
     (if x = sep then [] # split_on sep xs
      else (case split_on sep xs of [] \<Rightarrow> [[x]] | t # ts \<Rightarrow> (x # t) # ts))"

fun capitalise_terms :: "(string \<Rightarrow> string) \<Rightarrow> string list \<Rightarrow> js_error + string list" where
  "capitalise_terms toUpperCase [] = Inr []"
| "capitalise_terms toUpperCase (t # ts) =
     (case t of
        [] \<Rightarrow> Inl TypeError
      | c # cs \<Rightarrow>
          (case capitalise_terms toUpperCase ts of
             Inl err \<Rightarrow> Inl err
           | Inr ts' \<Rightarrow> Inr ((toUpperCase [c] @ cs) # ts')))"

definition camel_name :: "(string \<Rightarrow> string) \<Rightarrow> string \<Rightarrow> js_error + string" where
  "camel_name toUpperCase k =
     (case split_on CHR ''-'' k of
        [] \<Rightarrow> Inr []
      | t # ts \<Rightarrow>
          (case capitalise_terms toUpperCase ts of
             Inl err \<Rightarrow> Inl err
           | Inr ts' \<Rightarrow> Inr (concat (t # ts'))))"

fun dataset_loop ::
  "(string \<Rightarrow> string) \<Rightarrow> nat \<Rightarrow> ref \<Rightarrow> string list \<Rightarrow> heap \<Rightarrow> (string \<times> string) list
     \<Rightarrow> js_error + heap \<times> (string \<times> string) list" where
  "dataset_loop toUpperCase depth e [] s acc = Inr (s, acc)"
| "dataset_loop toUpperCase depth e (ky # kys) s acc =
     (if startsWith ky ''data-''
      then (let k = drop 5 ky; v = attribute_of s e k
            in case camel_name toUpperCase k of
                 Inl err \<Rightarrow> Inl err
               | Inr name \<Rightarrow>
                   (case map_of acc name of
                      None \<Rightarrow> dataset_loop toUpperCase depth e kys s (acc @ [(name, ky)])
                    | Some earlier \<Rightarrow>
                        (case VirtualElement_setAttribute depth s e earlier v of
                           Inl err \<Rightarrow> Inl err
                         | Inr s' \<Rightarrow>
                             dataset_loop toUpperCase depth e kys s' (AList.update name ky acc))))
      else dataset_loop toUpperCase depth e kys s acc)"

definition VirtualElement_dataset ::
  "(string \<Rightarrow> string) \<Rightarrow> nat \<Rightarrow> heap \<Rightarrow> ref \<Rightarrow> js_error + heap \<times> (string \<times> string) list" where
  "VirtualElement_dataset toUpperCase depth s e =
     dataset_loop toUpperCase depth e (map fst (attrs s (attributes (elems s e)))) s []"

definition dataset_get :: "heap \<Rightarrow> ref \<Rightarrow> (string \<times> string) list \<Rightarrow> string \<Rightarrow> jsval" where
  "dataset_get s e ds name =
     (case map_of ds name of None \<Rightarrow> Undefined | Some ky \<Rightarrow> VirtualElement_getAttribute s e ky)"

definition dataset_set ::
  "nat \<Rightarrow> heap \<Rightarrow> ref \<Rightarrow> (string \<times> string) list \<Rightarrow> string \<Rightarrow> jsval \<Rightarrow> js_error + heap" where
  "dataset_set depth s e ds name v =
     (case map_of ds name of None \<Rightarrow> Inr s | Some ky \<Rightarrow> VirtualElement_setAttribute depth s e ky v)"

section \<open>Example stores\<close>

text \<open>
  \<open>scene0\<close> is a tree with the tree-change listener \<open>7\<close> and four elements created and
  not yet appended: \<open>0\<close> (\<^verbatim>\<open>div\<close>), \<open>1\<close> (\<^verbatim>\<open>span\<close>), \<open>2\<close> (\<^verbatim>\<open>p\<close>) and \<open>3\<close>
  (\<^verbatim>\<open>div\<close>). In \<open>scene_top2\<close> the elements \<open>0\<close> and \<open>1\<close> have been appended to the tree.
\<close>

definition scene0 :: heap where
  "scene0 =
     (let s = fst (new_VirtualDOM empty_heap);
          s = onTreeChange s 0 7;
          s = fst (createElement s 0 ''div'');
          s = fst (createElement s 0 ''span'');
          s = fst (createElement s 0 ''p'');
          s = fst (createElement s 0 ''div'')
      in s)"

definition scene_top2 :: heap where
  "scene_top2 = VirtualDOM_appendChild (VirtualDOM_appendChild scene0 0 0) 0 1"

text \<open>
  In \<open>scene_classes\<close> the element \<open>0\<close> is the only top-level node, with class \<^verbatim>\<open>a b\<close> and
  id \<^verbatim>\<open>main\<close>; the elements \<open>1\<close> (class \<^verbatim>\<open>a\<close>) and \<open>2\<close> (id \<^verbatim>\<open>main\<close>) are in the
  tree's list of descendants.
\<close>

definition scene_classes :: heap where
  "scene_classes =
     (let s = VirtualDOM_appendChild scene0 0 0;
          s = upd_attrs s 0 (AList.update ''class'' (Str ''a b''));
          s = upd_attrs s 0 (AList.update ''id'' (Str ''main''));
          s = upd_dom s 0 (\<lambda>t. t\<lparr>dom_children := [1, 2]\<rparr>);
          s = upd_attrs s 1 (AList.update ''class'' (Str ''a''));
          s = upd_attrs s 2 (AList.update ''id'' (Str ''main''))
      in s)"

text \<open>
  In \<open>scene_click\<close> the element \<open>0\<close> has the listeners \<open>11\<close> and \<open>12\<close> for \<^verbatim>\<open>click\<close>,
  registered in this order. With \<open>run_plain\<close> the listener \<open>12\<close> calls
  \<^verbatim>\<open>preventDefault\<close> and every other listener leaves the event as it is.
\<close>

definition scene_click :: heap where
  "scene_click = addEventListener (addEventListener scene0 0 ''click'' 11) 0 ''click'' 12"

definition run_plain :: "callback \<Rightarrow> VirtualEvent \<Rightarrow> VirtualEvent" where
  "run_plain cb ev = (if cb = 12 then ev\<lparr>defaultPrevented := True\<rparr> else ev)"


definition the_heap :: "js_error + heap \<Rightarrow> heap" where
  "the_heap r = (case r of Inl _ \<Rightarrow> empty_heap | Inr s \<Rightarrow> s)"

definition scene_family :: heap where
  "scene_family =
     (let s = VirtualDOM_appendChild scene0 0 0;
          s = the_heap (VirtualElement_appendChild 3 s 0 1);
          s = the_heap (VirtualElement_appendChild 3 s 1 2);
          s = the_heap (VirtualElement_appendChild 3 s 0 3)
      in s)"

text \<open>
  The pre-order listing of the descendants of a sequence of nodes, as a relation: each node
  is followed by the listing of its own children and then by the listing of the nodes
  after it.
\<close>

inductive preorder :: "heap \<Rightarrow> ref list \<Rightarrow> ref list \<Rightarrow> bool" for s :: heap where
  preorder_Nil: "preorder s [] []"
| preorder_Cons:
    "preorder s (children (elems s c)) below \<Longrightarrow> preorder s cs rest \<Longrightarrow>
     preorder s (c # cs) (c # below @ rest)"

section \<open>Snapshots\<close>

text \<open>
  What \<^verbatim>\<open>cloneNode\<close> copies of a node is its tag name, its parent reference, its text and,
  recursively, its children: a \<open>node_value\<close>. \<open>tree_at lo hi s r v\<close> says that in the
  store \<open>s\<close> the node \<open>r\<close> and everything below it are finitely many nodes with
  addresses from \<open>lo\<close> up to \<open>hi\<close> (exclusive), and that \<open>v\<close> is what they hold.
  \<open>height\<close> is the number of levels of the tree, which is the number of nested
  \<^verbatim>\<open>cloneNode\<close> calls that cloning it takes.
\<close>

datatype node_value = Node string "ref option" string "node_value list"

inductive tree_at :: "nat \<Rightarrow> nat \<Rightarrow> heap \<Rightarrow> ref \<Rightarrow> node_value \<Rightarrow> bool"
  for lo :: nat and hi :: nat and s :: heap where
  tree_at_Node:
    "lo \<le> r \<Longrightarrow> r < hi \<Longrightarrow> list_all2 (tree_at lo hi s) (children (elems s r)) vs \<Longrightarrow>
     tree_at lo hi s r (Node (tagName (elems s r)) (parent (elems s r)) (innerText (elems s r)) vs)"

primrec height :: "node_value \<Rightarrow> nat" where
  "height (Node t p x vs) = Suc (foldr max (map height vs) 0)"

text \<open>
  \<open>snapshot_call s e v s'\<close>: going from \<open>s\<close> to \<open>s'\<close>, every tree-change listener of the
  tree that owns \<open>e\<close> has been called exactly once more, with \<open>e\<close> and with a node that did
  not exist in \<open>s\<close> and that holds the value \<open>v\<close> in \<open>s'\<close>; and when it was called, the
  objects were as they are in \<open>s'\<close>.
\<close>

definition snapshot_call :: "heap \<Rightarrow> ref \<Rightarrow> node_value \<Rightarrow> heap \<Rightarrow> bool" where
  "snapshot_call s e v s' =
     (\<exists>snap. next_elem s \<le> snap \<and>
        calls s' = calls s @
          map (\<lambda>l. (l, e, snap, view_of s'))
            (treeChangeListeners (doms s (parentDocument (elems s e)))) \<and>
        tree_at (next_elem s) (next_elem s') s' snap v)"

text \<open>
  Relations between two stores used in the proofs: \<open>frame\<close> (nothing that existed has
  changed), \<open>same_above\<close> (nothing at or above an address has changed, nor any owning tree
  or listener list) and \<open>preserves\<close> (the same for a range of addresses, while nodes may
  have been allocated). \<open>clone_shell\<close> is the store after \<^verbatim>\<open>cloneNode\<close> has made the new
  element and copied the attributes reference, the parent and the text into it.
\<close>

definition frame :: "heap \<Rightarrow> heap \<Rightarrow> bool" where
  "frame s s' =
     (doms s' = doms s \<and> calls s' = calls s \<and> next_dom s' = next_dom s \<and>
      next_elem s \<le> next_elem s' \<and> next_attr s \<le> next_attr s' \<and>
      (\<forall>r<next_elem s. elems s' r = elems s r) \<and>
      (\<forall>a<next_attr s. attrs s' a = attrs s a))"

definition clone_shell :: "heap \<Rightarrow> ref \<Rightarrow> heap" where
  "clone_shell s e =
     (let clone = next_elem s;
          s1 = fst (new_VirtualElement s (tagName (elems s e)) (parentDocument (elems s e)));
          s2 = upd_elem s1 clone (\<lambda>x. x\<lparr>attributes := attributes (elems s1 e)\<rparr>);
          s3 = upd_elem s2 clone (\<lambda>x. x\<lparr>parent := parent (elems s2 e)\<rparr>)
      in upd_elem s3 clone (\<lambda>x. x\<lparr>innerText := innerText (elems s3 e)\<rparr>))"

definition same_above :: "nat \<Rightarrow> heap \<Rightarrow> heap \<Rightarrow> bool" where
  "same_above n s1 s2 =
     (next_elem s2 = next_elem s1 \<and> calls s2 = calls s1 \<and>
      (\<forall>r\<ge>n. elems s2 r = elems s1 r) \<and>
      (\<forall>r. parentDocument (elems s2 r) = parentDocument (elems s1 r)) \<and>
      (\<forall>d. treeChangeListeners (doms s2 d) = treeChangeListeners (doms s1 d)))"


text \<open>
  \<open>toUpperCase_ascii\<close> is \<^verbatim>\<open>toUpperCase\<close> on ASCII text. \<open>scene_button\<close> is a tree with
  one \<^verbatim>\<open>button\<close> element \<open>0\<close> after \<^verbatim>\<open>setAttribute("data-test", "test")\<close>. In
  \<open>scene_cloned\<close> the element \<open>0\<close> of \<open>scene0\<close> has been cloned; the clone is the node \<open>4\<close>.
\<close>

definition toUpperCase_ascii :: "string \<Rightarrow> string" where
  "toUpperCase_ascii t =
     map (\<lambda>c. if 97 \<le> (of_char c :: nat) \<and> (of_char c :: nat) \<le> 122
              then char_of ((of_char c :: nat) - 32) else c) t"

definition scene_button :: heap where
  "scene_button =
     (let s = fst (new_VirtualDOM empty_heap);
          s = fst (createElement s 0 ''button'')
      in the_heap (VirtualElement_setAttribute 1 s 0 ''data-test'' (Str ''test'')))"

definition scene_cloned :: heap where
  "scene_cloned = (case cloneNode 1 scene0 0 True of Inl _ \<Rightarrow> empty_heap | Inr r \<Rightarrow> fst r)"

text \<open>
  \<open>thrown\<close> reads the error out of a result. In \<open>scene_removed\<close> the top-level node \<open>1\<close>
  of \<open>scene_top2\<close> has been removed from the tree.
\<close>

definition thrown :: "js_error + 'a \<Rightarrow> js_error option" where
  "thrown r = (case r of Inl err \<Rightarrow> Some err | Inr _ \<Rightarrow> None)"

definition scene_removed :: heap where
  "scene_removed = the_heap (VirtualDOM_removeChild scene_top2 0 1)"

section \<open>Where a node is placed\<close>

text \<open>
  The three states of a node with respect to the tree that owns it: \<open>top_level\<close> (in the
  tree's top-level list, parent unset), \<open>attached\<close> (in the tree's list of descendants,
  parent set) and \<open>in_neither\<close> (in neither list, which is what the claim calls removed).
  \<open>one_state\<close> says that exactly one of them holds.

  \<open>tree_inv\<close> is the form of this that operations can preserve: in every tree the two lists
  have no duplicates and share no node, every node in them exists and is owned by this
  tree, the top-level nodes have no parent and the descendants have one. \<open>unplaced s d n\<close>
  says that \<open>n\<close> is an existing node of the tree \<open>d\<close> that is in neither of its lists.

  In \<open>scene_one\<close> the element \<open>0\<close> is the only top-level node. In \<open>scene_both\<close> the element
  \<open>1\<close> has been appended to the element \<open>0\<close> and then to the tree as well.
\<close>

definition dom_ok :: "heap \<Rightarrow> ref \<Rightarrow> bool" where
  "dom_ok s d =
     (distinct (directChildren (doms s d)) \<and> distinct (dom_children (doms s d)) \<and>
      set (directChildren (doms s d)) \<inter> set (dom_children (doms s d)) = {} \<and>
      (\<forall>n\<in>set (directChildren (doms s d)).
         n < next_elem s \<and> parentDocument (elems s n) = d \<and> parent (elems s n) = None) \<and>
      (\<forall>n\<in>set (dom_children (doms s d)).
         n < next_elem s \<and> parentDocument (elems s n) = d \<and> parent (elems s n) \<noteq> None))"

definition tree_inv :: "heap \<Rightarrow> bool" where
  "tree_inv s = (\<forall>d<next_dom s. dom_ok s d)"

definition unplaced :: "heap \<Rightarrow> ref \<Rightarrow> ref \<Rightarrow> bool" where
  "unplaced s d n =
     (n < next_elem s \<and> d < next_dom s \<and> parentDocument (elems s n) = d \<and>
      n \<notin> set (directChildren (doms s d)) \<and> n \<notin> set (dom_children (doms s d)))"

definition top_level :: "heap \<Rightarrow> ref \<Rightarrow> bool" where
  "top_level s n =
     (n \<in> set (directChildren (doms s (parentDocument (elems s n)))) \<and> parent (elems s n) = None)"

definition attached :: "heap \<Rightarrow> ref \<Rightarrow> bool" where
  "attached s n =
     (n \<in> set (dom_children (doms s (parentDocument (elems s n)))) \<and> parent (elems s n) \<noteq> None)"

definition in_neither :: "heap \<Rightarrow> ref \<Rightarrow> bool" where
  "in_neither s n =
     (n \<notin> set (directChildren (doms s (parentDocument (elems s n)))) \<and>
      n \<notin> set (dom_children (doms s (parentDocument (elems s n)))))"

definition one_state :: "heap \<Rightarrow> ref \<Rightarrow> bool" where
  "one_state s n =
     ((top_level s n \<and> \<not> attached s n \<and> \<not> in_neither s n) \<or>
      (\<not> top_level s n \<and> attached s n \<and> \<not> in_neither s n) \<or>
      (\<not> top_level s n \<and> \<not> attached s n \<and> in_neither s n))"

definition scene_one :: heap where
  "scene_one = VirtualDOM_appendChild scene0 0 0"

definition scene_both :: heap where
  "scene_both = VirtualDOM_appendChild (the_heap (VirtualElement_appendChild 1 scene_one 0 1)) 0 1"

section \<open>Facts about the array primitives\<close>

lemmas scene_defs = scene0_def scene_top2_def new_VirtualDOM_def onTreeChange_def
  createElement_def new_VirtualElement_def VirtualDOM_appendChild_def upd_dom_def upd_elem_def
  upd_attrs_def empty_heap_def empty_dom_def empty_elem_def Let_def

lemma indexOf_ge: "- 1 \<le> indexOf xs x"
  by (induction xs) (auto simp: Let_def)

lemma indexOf_absent: "(indexOf xs x = - 1) = (x \<notin> set xs)"
proof (induction xs)
  case Nil
  show ?case by simp
next
  case (Cons y ys)
  have "- 1 \<le> indexOf ys x" by (rule indexOf_ge)
  with Cons show ?case by (auto simp: Let_def)
qed

lemma indexOf_first: "x \<notin> set pre \<Longrightarrow> indexOf (pre @ x # post) x = int (length pre)"
  by (induction pre) (auto simp: Let_def)

lemma splice_at:
  "splice (pre @ post) (int (length pre)) k items = pre @ items @ drop k post"
  by (simp add: splice_def Let_def min_def)

lemma splice_insert_found:
  "x \<notin> set pre \<Longrightarrow>
   splice (pre @ x # post) (indexOf (pre @ x # post) x) 0 [n] = pre @ n # x # post"
  by (simp add: indexOf_first splice_at)

lemma splice_delete_found:
  "x \<notin> set pre \<Longrightarrow>
   splice (pre @ x # post) (indexOf (pre @ x # post) x) (Suc 0) [] = pre @ post"
  by (simp add: indexOf_first splice_at)

lemma splice_insert_absent:
  "x \<notin> set xs \<Longrightarrow> splice xs (indexOf xs x) 0 [n] = butlast xs @ n # drop (length xs - 1) xs"
proof (cases xs rule: rev_cases)
  case Nil
  then show ?thesis by (simp add: splice_def)
next
  case (snoc ys y)
  assume "x \<notin> set xs"
  then have "indexOf xs x = - 1" by (simp add: indexOf_absent)
  with snoc show ?thesis by (simp add: splice_def Let_def)
qed

lemma splice_delete_absent:
  "x \<notin> set xs \<Longrightarrow> splice xs (indexOf xs x) (Suc 0) [] = butlast xs"
proof (cases xs rule: rev_cases)
  case Nil
  then show ?thesis by (simp add: splice_def)
next
  case (snoc ys y)
  assume "x \<notin> set xs"
  then have "indexOf xs x = - 1" by (simp add: indexOf_absent)
  with snoc show ?thesis by (simp add: splice_def Let_def)
qed

lemma assign_at_found:
  "x \<notin> set pre \<Longrightarrow>
   assign_at (pre @ x # post) (indexOf (pre @ x # post) x) v = pre @ v # post"
  by (simp add: indexOf_first assign_at_def)

lemma assign_at_absent: "x \<notin> set xs \<Longrightarrow> assign_at xs (indexOf xs x) v = xs"
  by (simp add: assign_at_def indexOf_absent [symmetric])

section \<open>Tree-level insertion\<close>

text \<open>
  C5, as stated: when the reference is not a top-level node, \<^verbatim>\<open>insertBefore\<close> puts the node
  at position 0. It does not: \<^verbatim>\<open>indexOf\<close> gives \<open>-1\<close> and \<^verbatim>\<open>splice(-1, 0, child)\<close> inserts
  before the last element. With the top-level nodes \<open>[0, 1]\<close>, inserting the node \<open>2\<close>
  before the node \<open>3\<close>, which is not in the tree, gives \<open>[0, 2, 1]\<close>.
\<close>

theorem insertBefore_absent_reference_counterexample:
  "\<not> isRemoved (elems scene_top2 2) \<and> directChildren (doms scene_top2 0) = [0, 1] \<and>
   3 \<notin> set (directChildren (doms scene_top2 0)) \<and>
   directChildren (doms (VirtualDOM_insertBefore scene_top2 0 2 3) 0) = [0, 2, 1] \<and>
   directChildren (doms (VirtualDOM_insertBefore scene_top2 0 2 3) 0)
     \<noteq> 2 # directChildren (doms scene_top2 0)"
  by (simp add: scene_defs VirtualDOM_insertBefore_def splice_def)

text \<open>
  C5, amended: \<^verbatim>\<open>insertBefore(n, r)\<close> on a tree changes nothing when \<^verbatim>\<open>n\<close> is removed.
  Otherwise it changes only the tree's top-level list: \<^verbatim>\<open>n\<close> is put immediately before the
  first occurrence of \<^verbatim>\<open>r\<close>; when \<^verbatim>\<open>r\<close> is not a top-level node, \<^verbatim>\<open>n\<close> is put immediately
  before the last top-level node (and becomes the only one when there is none).
\<close>

theorem insertBefore_splices:
  "(isRemoved (elems s n) \<longrightarrow> VirtualDOM_insertBefore s d n r = s) \<and>
   (\<not> isRemoved (elems s n) \<and> directChildren (doms s d) = pre @ r # post \<and> r \<notin> set pre \<longrightarrow>
      VirtualDOM_insertBefore s d n r =
        s\<lparr>doms := (doms s)(d := (doms s d)\<lparr>directChildren := pre @ n # r # post\<rparr>)\<rparr>) \<and>
   (\<not> isRemoved (elems s n) \<and> r \<notin> set (directChildren (doms s d)) \<longrightarrow>
      VirtualDOM_insertBefore s d n r =
        s\<lparr>doms := (doms s)(d := (doms s d)\<lparr>directChildren :=
           butlast (directChildren (doms s d)) @ n #
           drop (length (directChildren (doms s d)) - 1) (directChildren (doms s d))\<rparr>)\<rparr>)"
proof (intro conjI impI)
  assume "isRemoved (elems s n)"
  then show "VirtualDOM_insertBefore s d n r = s"
    by (simp add: VirtualDOM_insertBefore_def)
next
  assume a: "\<not> isRemoved (elems s n) \<and> directChildren (doms s d) = pre @ r # post \<and> r \<notin> set pre"
  then have "splice (directChildren (doms s d)) (indexOf (directChildren (doms s d)) r) 0 [n]
      = pre @ n # r # post"
    by (simp add: splice_insert_found)
  with a show "VirtualDOM_insertBefore s d n r =
        s\<lparr>doms := (doms s)(d := (doms s d)\<lparr>directChildren := pre @ n # r # post\<rparr>)\<rparr>"
    by (simp add: VirtualDOM_insertBefore_def upd_dom_def Let_def)
next
  assume a: "\<not> isRemoved (elems s n) \<and> r \<notin> set (directChildren (doms s d))"
  then show "VirtualDOM_insertBefore s d n r =
        s\<lparr>doms := (doms s)(d := (doms s d)\<lparr>directChildren :=
           butlast (directChildren (doms s d)) @ n #
           drop (length (directChildren (doms s d)) - 1) (directChildren (doms s d))\<rparr>)\<rparr>"
    by (simp add: VirtualDOM_insertBefore_def upd_dom_def Let_def splice_insert_absent)
qed

theorem insertBefore_splices_witness:
  "VirtualDOM_insertBefore scene_top2 0 2 1 =
     scene_top2\<lparr>doms := (doms scene_top2)(0 := (doms scene_top2 0)\<lparr>directChildren := [0, 2, 1]\<rparr>)\<rparr> \<and>
   VirtualDOM_insertBefore scene_top2 0 2 3 =
     scene_top2\<lparr>doms := (doms scene_top2)(0 := (doms scene_top2 0)\<lparr>directChildren := [0, 2, 1]\<rparr>)\<rparr>"
proof -
  have D: "directChildren (doms scene_top2 0) = [0, 1]" and R: "\<not> isRemoved (elems scene_top2 2)"
    by (simp_all add: scene_defs)
  from insertBefore_splices [of scene_top2 2 0 1 "[0]" "[]"] D R
  have 1: "VirtualDOM_insertBefore scene_top2 0 2 1 =
     scene_top2\<lparr>doms := (doms scene_top2)(0 := (doms scene_top2 0)\<lparr>directChildren := [0, 2, 1]\<rparr>)\<rparr>"
    by simp
  from insertBefore_splices [of scene_top2 2 0 3 "[]" "[]"] D R
  have 2: "VirtualDOM_insertBefore scene_top2 0 2 3 =
     scene_top2\<lparr>doms := (doms scene_top2)(0 := (doms scene_top2 0)\<lparr>directChildren := [0, 2, 1]\<rparr>)\<rparr>"
    by simp
  from 1 2 show ?thesis by simp
qed

section \<open>Tree-level operations and the listeners\<close>

text \<open>
  C10: none of the tree-level structural operations (\<^verbatim>\<open>appendChild\<close>, \<^verbatim>\<open>insertBefore\<close>,
  \<^verbatim>\<open>replaceChild\<close>, \<^verbatim>\<open>removeChild\<close> of \<^verbatim>\<open>VirtualDOM\<close>) calls a tree-change listener: the
  record of listener calls is the same after the operation as before it.
\<close>

theorem tree_operations_do_not_notify:
  "calls (VirtualDOM_appendChild s d n) = calls s \<and>
   calls (VirtualDOM_insertBefore s d n r) = calls s \<and>
   (\<forall>s'. VirtualDOM_replaceChild s d n old = Inr s' \<longrightarrow> calls s' = calls s) \<and>
   (\<forall>s'. VirtualDOM_removeChild s d n = Inr s' \<longrightarrow> calls s' = calls s)"
  by (auto simp: VirtualDOM_appendChild_def VirtualDOM_insertBefore_def VirtualDOM_replaceChild_def
      VirtualDOM_removeChild_def upd_dom_def upd_elem_def Let_def split: if_splits)

theorem tree_operations_do_not_notify_witness:
  "treeChangeListeners (doms scene_top2 0) = [7] \<and>
   (\<exists>s'. VirtualDOM_replaceChild scene_top2 0 2 1 = Inr s' \<and> calls s' = calls scene_top2) \<and>
   (\<exists>s'. VirtualDOM_removeChild scene_top2 0 1 = Inr s' \<and> calls s' = calls scene_top2)"
proof -
  have L: "treeChangeListeners (doms scene_top2 0) = [7]"
    by (simp add: scene_defs)
  obtain s1 where 1: "VirtualDOM_replaceChild scene_top2 0 2 1 = Inr s1"
    by (simp add: scene_defs VirtualDOM_replaceChild_def array_includes_def)
  obtain s2 where 2: "VirtualDOM_removeChild scene_top2 0 1 = Inr s2"
    by (simp add: scene_defs VirtualDOM_removeChild_def)
  from tree_operations_do_not_notify [of scene_top2 0 2 1 1] 1
  have "calls s1 = calls scene_top2" by simp
  moreover from tree_operations_do_not_notify [of scene_top2 0 1 1 1] 2
  have "calls s2 = calls scene_top2" by simp
  ultimately show ?thesis using L 1 2 by simp
qed

section \<open>Lookups on the tree\<close>

lemma first_of_filter: "first_of (filter P xs) = find P xs"
  by (induction xs) (auto simp: first_of_def)

lemma first_of_None: "(first_of zs = None) = (zs = [])"
  by (cases zs) (simp_all add: first_of_def)

lemma two_tier_first:
  "(if 0 < length (filter P xs) then first_of (filter P xs) else first_of (filter P ys)) =
   (case find P xs of Some e \<Rightarrow> Some e | None \<Rightarrow> find P ys)"
proof (cases "find P xs")
  case None
  then have "filter P xs = []"
    using first_of_filter [of P xs] by (simp add: first_of_None)
  with None show ?thesis by (simp add: first_of_filter)
next
  case (Some e)
  then have "filter P xs \<noteq> []"
    using first_of_filter [of P xs] first_of_None [of "filter P xs"] by auto
  with Some show ?thesis by (simp add: first_of_filter)
qed

text \<open>
  C7: the four lookups of a tree search the top-level nodes first and look at the list of
  descendants only when no top-level node matches; the two lists are never merged, so a
  node that is not top-level is returned only when no top-level node matches.
  \<^verbatim>\<open>querySelector\<close> and \<^verbatim>\<open>getElementById\<close> return the first match of that search. The id and
  class lookups compare the whole attribute value with the argument.
\<close>

theorem VirtualDOM_lookups_two_tier:
  "VirtualDOM_querySelectorAll s d sel =
     (if \<exists>e\<in>set (directChildren (doms s d)). tagName (elems s e) = sel
      then filter (\<lambda>e. tagName (elems s e) = sel) (directChildren (doms s d))
      else filter (\<lambda>e. tagName (elems s e) = sel) (dom_children (doms s d))) \<and>
   VirtualDOM_querySelector s d sel =
     (case find (\<lambda>e. tagName (elems s e) = sel) (directChildren (doms s d)) of
        Some e \<Rightarrow> Some e
      | None \<Rightarrow> find (\<lambda>e. tagName (elems s e) = sel) (dom_children (doms s d))) \<and>
   VirtualDOM_getElementById s d i =
     (case find (\<lambda>e. attribute_of s e ''id'' = Str i) (directChildren (doms s d)) of
        Some e \<Rightarrow> Some e
      | None \<Rightarrow> find (\<lambda>e. attribute_of s e ''id'' = Str i) (dom_children (doms s d))) \<and>
   VirtualDOM_getElementsByClassName s d c =
     (if \<exists>e\<in>set (directChildren (doms s d)). attribute_of s e ''class'' = Str c
      then filter (\<lambda>e. attribute_of s e ''class'' = Str c) (directChildren (doms s d))
      else filter (\<lambda>e. attribute_of s e ''class'' = Str c) (dom_children (doms s d))) \<and>
   (\<forall>x. x \<in> set (VirtualDOM_querySelectorAll s d sel) \<and> x \<notin> set (directChildren (doms s d)) \<longrightarrow>
      (\<forall>e\<in>set (directChildren (doms s d)). tagName (elems s e) \<noteq> sel)) \<and>
   (\<forall>x. x \<in> set (VirtualDOM_getElementsByClassName s d c) \<and> x \<notin> set (directChildren (doms s d)) \<longrightarrow>
      (\<forall>e\<in>set (directChildren (doms s d)). attribute_of s e ''class'' \<noteq> Str c)) \<and>
   (\<forall>x\<in>set (VirtualDOM_getElementsByClassName s d c). attribute_of s x ''class'' = Str c)"
proof (intro conjI)
  show "VirtualDOM_querySelectorAll s d sel =
     (if \<exists>e\<in>set (directChildren (doms s d)). tagName (elems s e) = sel
      then filter (\<lambda>e. tagName (elems s e) = sel) (directChildren (doms s d))
      else filter (\<lambda>e. tagName (elems s e) = sel) (dom_children (doms s d)))"
    by (simp add: VirtualDOM_querySelectorAll_def Let_def filter_empty_conv)
  show "VirtualDOM_querySelector s d sel =
     (case find (\<lambda>e. tagName (elems s e) = sel) (directChildren (doms s d)) of
        Some e \<Rightarrow> Some e
      | None \<Rightarrow> find (\<lambda>e. tagName (elems s e) = sel) (dom_children (doms s d)))"
    unfolding VirtualDOM_querySelector_def Let_def by (rule two_tier_first)
  show "VirtualDOM_getElementById s d i =
     (case find (\<lambda>e. attribute_of s e ''id'' = Str i) (directChildren (doms s d)) of
        Some e \<Rightarrow> Some e
      | None \<Rightarrow> find (\<lambda>e. attribute_of s e ''id'' = Str i) (dom_children (doms s d)))"
    unfolding VirtualDOM_getElementById_def Let_def by (rule two_tier_first)
  show "VirtualDOM_getElementsByClassName s d c =
     (if \<exists>e\<in>set (directChildren (doms s d)). attribute_of s e ''class'' = Str c
      then filter (\<lambda>e. attribute_of s e ''class'' = Str c) (directChildren (doms s d))
      else filter (\<lambda>e. attribute_of s e ''class'' = Str c) (dom_children (doms s d)))"
    by (simp add: VirtualDOM_getElementsByClassName_def Let_def filter_empty_conv)
  show "\<forall>x. x \<in> set (VirtualDOM_querySelectorAll s d sel) \<and> x \<notin> set (directChildren (doms s d)) \<longrightarrow>
      (\<forall>e\<in>set (directChildren (doms s d)). tagName (elems s e) \<noteq> sel)"
    by (auto simp: VirtualDOM_querySelectorAll_def Let_def filter_empty_conv split: if_splits)
  show "\<forall>x. x \<in> set (VirtualDOM_getElementsByClassName s d c) \<and> x \<notin> set (directChildren (doms s d)) \<longrightarrow>
      (\<forall>e\<in>set (directChildren (doms s d)). attribute_of s e ''class'' \<noteq> Str c)"
    by (auto simp: VirtualDOM_getElementsByClassName_def Let_def filter_empty_conv split: if_splits)
  show "\<forall>x\<in>set (VirtualDOM_getElementsByClassName s d c). attribute_of s x ''class'' = Str c"
    by (auto simp: VirtualDOM_getElementsByClassName_def Let_def split: if_splits)
qed

lemma scene_classes_facts:
  "directChildren (doms scene_classes 0) = [0]"
  "dom_children (doms scene_classes 0) = [1, 2]"
  "tagName (elems scene_classes 0) = ''div''" "tagName (elems scene_classes (Suc 0)) = ''span''"
      "tagName (elems scene_classes 2) = ''p''"
   "attribute_of scene_classes 0 ''class'' = Str ''a b''"
      "attribute_of scene_classes (Suc 0) ''class'' = Str ''a''"
      "attribute_of scene_classes 2 ''class'' = Str ''''"
      "attribute_of scene_classes 0 ''id'' = Str ''main''"
      "attribute_of scene_classes (Suc 0) ''id'' = Undefined"
      "attribute_of scene_classes 2 ''id'' = Str ''main''"
  by code_simp+



theorem VirtualDOM_lookups_two_tier_witness:
  "VirtualDOM_querySelectorAll scene_classes 0 ''span'' = [1] \<and>
   VirtualDOM_querySelector scene_classes 0 ''div'' = Some 0 \<and>
   VirtualDOM_getElementById scene_classes 0 ''main'' = Some 0 \<and>
   VirtualDOM_getElementsByClassName scene_classes 0 ''a'' = [1] \<and>
   VirtualDOM_getElementsByClassName scene_classes 0 ''a b'' = [0]"
proof -
  note T1 = VirtualDOM_lookups_two_tier [of scene_classes 0 "''span''" "''main''" "''a''"]
  note T2 = VirtualDOM_lookups_two_tier [of scene_classes 0 "''div''" "''main''" "''a b''"]
  have 1: "VirtualDOM_querySelectorAll scene_classes 0 ''span'' = [1]"
    using T1 [THEN conjunct1] by (simp add: scene_classes_facts)
  have 2: "VirtualDOM_querySelector scene_classes 0 ''div'' = Some 0"
    using T2 [THEN conjunct2, THEN conjunct1] by (simp add: scene_classes_facts)
  have 3: "VirtualDOM_getElementById scene_classes 0 ''main'' = Some 0"
    using T1 [THEN conjunct2, THEN conjunct2, THEN conjunct1] by (simp add: scene_classes_facts)
  have 4: "VirtualDOM_getElementsByClassName scene_classes 0 ''a'' = [1]"
    using T1 [THEN conjunct2, THEN conjunct2, THEN conjunct2, THEN conjunct1] by (simp add: scene_classes_facts)
  have 5: "VirtualDOM_getElementsByClassName scene_classes 0 ''a b'' = [0]"
    using T2 [THEN conjunct2, THEN conjunct2, THEN conjunct2, THEN conjunct1] by (simp add: scene_classes_facts)
  from 1 2 3 4 5 show ?thesis by simp
qed

section \<open>Event dispatch\<close>

lemma run_callbacks_prefix:
  "cbs \<noteq> [] \<Longrightarrow>
   \<exists>n. 0 < n \<and> n \<le> length cbs \<and>
       run_callbacks run cbs ev called0 =
         (foldl (\<lambda>x cb. run cb x) ev (take n cbs), called0 @ take n cbs) \<and>
       (\<forall>i. 0 < i \<and> i < n \<longrightarrow> bubbles (foldl (\<lambda>x cb. run cb x) ev (take i cbs))) \<and>
       (n < length cbs \<longrightarrow> \<not> bubbles (foldl (\<lambda>x cb. run cb x) ev (take n cbs)))"
proof (induction cbs arbitrary: ev called0)
  case Nil
  then show ?case by simp
next
  case (Cons cb cbs)
  show ?case
  proof (cases "bubbles (run cb ev) \<and> cbs \<noteq> []")
    case False
    then have "0 < (1::nat) \<and> 1 \<le> length (cb # cbs) \<and>
       run_callbacks run (cb # cbs) ev called0 =
         (foldl (\<lambda>x cb. run cb x) ev (take 1 (cb # cbs)), called0 @ take 1 (cb # cbs)) \<and>
       (\<forall>i. 0 < i \<and> i < 1 \<longrightarrow> bubbles (foldl (\<lambda>x cb. run cb x) ev (take i (cb # cbs)))) \<and>
       (1 < length (cb # cbs) \<longrightarrow> \<not> bubbles (foldl (\<lambda>x cb. run cb x) ev (take 1 (cb # cbs))))"
      by (auto simp: Let_def)
    then show ?thesis by blast
  next
    case True
    from Cons.IH [of "run cb ev" "called0 @ [cb]"] True
    obtain n where n: "0 < n" "n \<le> length cbs"
      "run_callbacks run cbs (run cb ev) (called0 @ [cb]) =
         (foldl (\<lambda>x cb. run cb x) (run cb ev) (take n cbs), (called0 @ [cb]) @ take n cbs)"
      "\<forall>i. 0 < i \<and> i < n \<longrightarrow> bubbles (foldl (\<lambda>x cb. run cb x) (run cb ev) (take i cbs))"
      "n < length cbs \<longrightarrow> \<not> bubbles (foldl (\<lambda>x cb. run cb x) (run cb ev) (take n cbs))"
      by blast
    have b: "\<forall>i. 0 < i \<and> i < Suc n \<longrightarrow>
        bubbles (foldl (\<lambda>x cb. run cb x) ev (take i (cb # cbs)))"
    proof (intro allI impI)
      fix i assume i: "0 < i \<and> i < Suc n"
      then obtain j where j: "i = Suc j" by (cases i) auto
      show "bubbles (foldl (\<lambda>x cb. run cb x) ev (take i (cb # cbs)))"
      proof (cases j)
        case 0
        with j True show ?thesis by simp
      next
        case (Suc k)
        with j i n(4) show ?thesis by simp
      qed
    qed
    from n True b have "0 < Suc n \<and> Suc n \<le> length (cb # cbs) \<and>
       run_callbacks run (cb # cbs) ev called0 =
         (foldl (\<lambda>x cb. run cb x) ev (take (Suc n) (cb # cbs)), called0 @ take (Suc n) (cb # cbs)) \<and>
       (\<forall>i. 0 < i \<and> i < Suc n \<longrightarrow> bubbles (foldl (\<lambda>x cb. run cb x) ev (take i (cb # cbs)))) \<and>
       (Suc n < length (cb # cbs) \<longrightarrow>
          \<not> bubbles (foldl (\<lambda>x cb. run cb x) ev (take (Suc n) (cb # cbs))))"
      by (simp add: Let_def)
    then show ?thesis by blast
  qed
qed

text \<open>
  C8: on an element with at least one listener for the event's type, \<^verbatim>\<open>dispatchEvent\<close>
  sets the event's target to the element and calls the listeners of that type in
  registration order, each with the event as the one before left it; it calls the first
  \<open>n\<close> of them, where \<^verbatim>\<open>bubbles\<close> was true after each of the first \<open>n - 1\<close> and, when
  listeners are left over, false after the \<open>n\<close>-th. In particular, with two listeners and
  an event whose \<^verbatim>\<open>bubbles\<close> is false and stays so through the first listener, only the
  first listener is called.
\<close>

theorem dispatchEvent_order:
  "eventListeners (elems s e) (event_type event) = Some cbs \<and> cbs \<noteq> [] \<longrightarrow>
   (\<exists>n. 0 < n \<and> n \<le> length cbs \<and>
       dispatchEvent run s e event =
         Inr (foldl (\<lambda>x cb. run cb x) (event\<lparr>target := Some e\<rparr>) (take n cbs), take n cbs) \<and>
       (\<forall>i. 0 < i \<and> i < n \<longrightarrow>
          bubbles (foldl (\<lambda>x cb. run cb x) (event\<lparr>target := Some e\<rparr>) (take i cbs))) \<and>
       (n < length cbs \<longrightarrow>
          \<not> bubbles (foldl (\<lambda>x cb. run cb x) (event\<lparr>target := Some e\<rparr>) (take n cbs)))) \<and>
   (cbs = [l1, l2] \<and> \<not> bubbles event \<and> bubbles (run l1 (event\<lparr>target := Some e\<rparr>)) = bubbles event \<longrightarrow>
      dispatchEvent run s e event = Inr (run l1 (event\<lparr>target := Some e\<rparr>), [l1]))"
proof (intro impI)
  assume a: "eventListeners (elems s e) (event_type event) = Some cbs \<and> cbs \<noteq> []"
  then have d: "dispatchEvent run s e event = Inr (run_callbacks run cbs (event\<lparr>target := Some e\<rparr>) [])"
    by (simp add: dispatchEvent_def Let_def)
  from a run_callbacks_prefix [of cbs run "event\<lparr>target := Some e\<rparr>" "[]"]
  obtain n where n: "0 < n" "n \<le> length cbs"
      "run_callbacks run cbs (event\<lparr>target := Some e\<rparr>) [] =
         (foldl (\<lambda>x cb. run cb x) (event\<lparr>target := Some e\<rparr>) (take n cbs), [] @ take n cbs)"
      "\<forall>i. 0 < i \<and> i < n \<longrightarrow> bubbles (foldl (\<lambda>x cb. run cb x) (event\<lparr>target := Some e\<rparr>) (take i cbs))"
      "n < length cbs \<longrightarrow> \<not> bubbles (foldl (\<lambda>x cb. run cb x) (event\<lparr>target := Some e\<rparr>) (take n cbs))"
    by blast
  have 1: "\<exists>n. 0 < n \<and> n \<le> length cbs \<and>
       dispatchEvent run s e event =
         Inr (foldl (\<lambda>x cb. run cb x) (event\<lparr>target := Some e\<rparr>) (take n cbs), take n cbs) \<and>
       (\<forall>i. 0 < i \<and> i < n \<longrightarrow>
          bubbles (foldl (\<lambda>x cb. run cb x) (event\<lparr>target := Some e\<rparr>) (take i cbs))) \<and>
       (n < length cbs \<longrightarrow>
          \<not> bubbles (foldl (\<lambda>x cb. run cb x) (event\<lparr>target := Some e\<rparr>) (take n cbs)))"
    using n d by (intro exI [of _ n]) simp
  have 2: "cbs = [l1, l2] \<and> \<not> bubbles event \<and> bubbles (run l1 (event\<lparr>target := Some e\<rparr>)) = bubbles event \<longrightarrow>
      dispatchEvent run s e event = Inr (run l1 (event\<lparr>target := Some e\<rparr>), [l1])"
    using d by (auto simp: Let_def)
  from 1 2 show "(\<exists>n. 0 < n \<and> n \<le> length cbs \<and>
       dispatchEvent run s e event =
         Inr (foldl (\<lambda>x cb. run cb x) (event\<lparr>target := Some e\<rparr>) (take n cbs), take n cbs) \<and>
       (\<forall>i. 0 < i \<and> i < n \<longrightarrow>
          bubbles (foldl (\<lambda>x cb. run cb x) (event\<lparr>target := Some e\<rparr>) (take i cbs))) \<and>
       (n < length cbs \<longrightarrow>
          \<not> bubbles (foldl (\<lambda>x cb. run cb x) (event\<lparr>target := Some e\<rparr>) (take n cbs)))) \<and>
   (cbs = [l1, l2] \<and> \<not> bubbles event \<and> bubbles (run l1 (event\<lparr>target := Some e\<rparr>)) = bubbles event \<longrightarrow>
      dispatchEvent run s e event = Inr (run l1 (event\<lparr>target := Some e\<rparr>), [l1]))"
    by blast
qed

lemma scene_click_facts:
  "eventListeners (elems scene_click 0) ''click'' = Some [11, 12]"
  "event_type (new_VirtualEvent ''click'' None (Some False)) = ''click''"
  "bubbles (new_VirtualEvent ''click'' None (Some False)) = False"
  "bubbles (run_plain 11 (new_VirtualEvent ''click'' None (Some False)\<lparr>target := Some 0\<rparr>)) = False"
  "run_plain 11 (new_VirtualEvent ''click'' None (Some False)\<lparr>target := Some 0\<rparr>)
     = (new_VirtualEvent ''click'' None (Some False))\<lparr>target := Some 0\<rparr>"
  by code_simp+

theorem dispatchEvent_order_witness:
  "dispatchEvent run_plain scene_click 0 (new_VirtualEvent ''click'' None (Some False)) =
     Inr ((new_VirtualEvent ''click'' None (Some False))\<lparr>target := Some 0\<rparr>, [11])"
  using dispatchEvent_order [where s = scene_click and e = 0
      and event = "new_VirtualEvent ''click'' None (Some False)"
      and cbs = "[11, 12]" and ?l1.0 = 11 and ?l2.0 = 12 and run = run_plain]
  by (simp add: scene_click_facts)

section \<open>Queries on an element\<close>

lemma collect_sound:
  "collect depth s c arr = Inr out \<Longrightarrow>
     \<exists>xs. out = arr @ c # xs \<and> preorder s (children (elems s c)) xs"
  "collect_all depth s cs arr = Inr out' \<Longrightarrow> \<exists>xs. out' = arr @ xs \<and> preorder s cs xs"
proof (induction depth s c arr and depth s cs arr arbitrary: out and out'
    rule: collect_collect_all.induct)
  case (1 s c arr)
  then show ?case by simp
next
  case (2 depth s c arr)
  from "2.prems" have "collect_all depth s (children (elems s c)) (arr @ [c]) = Inr out" by simp
  from "2.IH" [OF this] show ?case by auto
next
  case (3 depth s arr)
  then show ?case by (auto intro: preorder_Nil)
next
  case (4 depth s c cs arr)
  from "4.prems" obtain mid where
    m: "collect depth s c arr = Inr mid" "collect_all depth s cs mid = Inr out'"
    by (auto split: sum.splits)
  from "4.IH"(1) [OF m(1)] obtain xs where
    xs: "mid = arr @ c # xs" "preorder s (children (elems s c)) xs"
    by blast
  from "4.IH"(2) [OF m(1) m(2)] obtain ys where ys: "out' = mid @ ys" "preorder s cs ys"
    by blast
  from xs ys have "out' = arr @ (c # xs @ ys) \<and> preorder s (c # cs) (c # xs @ ys)"
    by (auto intro: preorder_Cons)
  then show ?case by blast
qed

lemma collect_complete:
  "preorder s cs xs \<Longrightarrow>
   \<exists>k. \<forall>depth\<ge>k. \<forall>arr. collect_all depth s cs arr = Inr (arr @ xs)"
proof (induction rule: preorder.induct)
  case preorder_Nil
  show ?case by simp
next
  case (preorder_Cons c below cs rest)
  from preorder_Cons.IH obtain k1 k2 where
    k1: "\<forall>depth\<ge>k1. \<forall>arr. collect_all depth s (children (elems s c)) arr = Inr (arr @ below)" and
    k2: "\<forall>depth\<ge>k2. \<forall>arr. collect_all depth s cs arr = Inr (arr @ rest)"
    by blast
  have "\<forall>depth\<ge>max (Suc k1) k2. \<forall>arr. collect_all depth s (c # cs) arr = Inr (arr @ c # below @ rest)"
  proof (intro allI impI)
    fix depth arr
    assume d: "max (Suc k1) k2 \<le> depth"
    then obtain d' where d': "depth = Suc d'" "k1 \<le> d'" by (cases depth) auto
    from d' k1 have "collect depth s c arr = Inr ((arr @ [c]) @ below)" by simp
    moreover from d k2 have "collect_all depth s cs ((arr @ [c]) @ below) = Inr (((arr @ [c]) @ below) @ rest)"
      by simp
    ultimately show "collect_all depth s (c # cs) arr = Inr (arr @ c # below @ rest)" by simp
  qed
  then show ?case by blast
qed

text \<open>
  C6: with a selector other than \<^verbatim>\<open>"*"\<close>, \<^verbatim>\<open>querySelectorAll\<close> on an element returns
  exactly its direct children with that tag name, so nothing that is not a direct child is
  returned. With \<^verbatim>\<open>"*"\<close> it returns the pre-order listing of the descendants: whenever
  that listing exists (the subtree is finite) every sufficiently deep stack returns it, and
  nothing else is ever returned. \<^verbatim>\<open>querySelector\<close> returns the first element of that
  result.
\<close>

theorem element_querySelectorAll:
  "(sel \<noteq> ''*'' \<longrightarrow>
      VirtualElement_querySelectorAll depth s e sel =
        Inr (filter (\<lambda>x. tagName (elems s x) = sel) (children (elems s e))) \<and>
      (\<forall>xs. VirtualElement_querySelectorAll depth s e sel = Inr xs \<longrightarrow>
         (\<forall>x\<in>set xs. x \<in> set (children (elems s e))))) \<and>
   (\<forall>xs. preorder s (children (elems s e)) xs \<longrightarrow>
      (\<exists>k. \<forall>depth\<ge>k. VirtualElement_querySelectorAll depth s e ''*'' = Inr xs)) \<and>
   (\<forall>xs. VirtualElement_querySelectorAll depth s e ''*'' = Inr xs \<longrightarrow>
      preorder s (children (elems s e)) xs) \<and>
   (\<forall>xs. VirtualElement_querySelectorAll depth s e sel = Inr xs \<longrightarrow>
      VirtualElement_querySelector depth s e sel = Inr (case xs of [] \<Rightarrow> None | x # _ \<Rightarrow> Some x))"
proof (intro conjI)
  show "sel \<noteq> ''*'' \<longrightarrow>
      VirtualElement_querySelectorAll depth s e sel =
        Inr (filter (\<lambda>x. tagName (elems s x) = sel) (children (elems s e))) \<and>
      (\<forall>xs. VirtualElement_querySelectorAll depth s e sel = Inr xs \<longrightarrow>
         (\<forall>x\<in>set xs. x \<in> set (children (elems s e))))"
    by (auto simp: VirtualElement_querySelectorAll_def Let_def)
  show "\<forall>xs. preorder s (children (elems s e)) xs \<longrightarrow>
      (\<exists>k. \<forall>depth\<ge>k. VirtualElement_querySelectorAll depth s e ''*'' = Inr xs)"
  proof (intro allI impI)
    fix xs assume "preorder s (children (elems s e)) xs"
    from collect_complete [OF this] obtain k where
      "\<forall>depth\<ge>k. \<forall>arr. collect_all depth s (children (elems s e)) arr = Inr (arr @ xs)" by blast
    then have "\<forall>depth\<ge>k. VirtualElement_querySelectorAll depth s e ''*'' = Inr xs"
      by (simp add: VirtualElement_querySelectorAll_def)
    then show "\<exists>k. \<forall>depth\<ge>k. VirtualElement_querySelectorAll depth s e ''*'' = Inr xs" by blast
  qed
  show "\<forall>xs. VirtualElement_querySelectorAll depth s e ''*'' = Inr xs \<longrightarrow>
      preorder s (children (elems s e)) xs"
    using collect_sound(2) [of depth s "children (elems s e)" "[]"]
    by (auto simp: VirtualElement_querySelectorAll_def)
  show "\<forall>xs. VirtualElement_querySelectorAll depth s e sel = Inr xs \<longrightarrow>
      VirtualElement_querySelector depth s e sel = Inr (case xs of [] \<Rightarrow> None | x # _ \<Rightarrow> Some x)"
    by (simp add: VirtualElement_querySelector_def first_of_def)
qed

lemma scene_family_facts:
  "children (elems scene_family 0) = [1, 3]"
  "children (elems scene_family (Suc 0)) = [2]"
  "children (elems scene_family 2) = []"
  "children (elems scene_family 3) = []"
  "tagName (elems scene_family (Suc 0)) = ''span''"
  "tagName (elems scene_family 2) = ''p''"
  "tagName (elems scene_family 3) = ''div''"
  "VirtualElement_querySelectorAll 2 scene_family 0 ''*'' = Inr [1, 2, 3]"
  "VirtualElement_querySelectorAll 2 scene_family 0 ''p'' = Inr []"
  by code_simp+


theorem element_querySelectorAll_witness:
  "tagName (elems scene_family 2) = ''p'' \<and>
   VirtualElement_querySelectorAll 2 scene_family 0 ''p'' = Inr [] \<and>
   preorder scene_family (children (elems scene_family 0)) [1, 2, 3] \<and>
   (\<exists>k. \<forall>depth\<ge>k. VirtualElement_querySelectorAll depth scene_family 0 ''*'' = Inr [1, 2, 3]) \<and>
   VirtualElement_querySelector 2 scene_family 0 ''*'' = Inr (Some 1)"
proof -
  note T = element_querySelectorAll [where s = scene_family and e = 0 and depth = 2]
  have n: "preorder scene_family [] []" by (rule preorder_Nil)
  have p2: "preorder scene_family (children (elems scene_family 2)) []"
    and p3: "preorder scene_family (children (elems scene_family 3)) []"
    by (simp_all add: scene_family_facts preorder_Nil)
  from preorder_Cons [OF p2 n]
  have p1: "preorder scene_family (children (elems scene_family (Suc 0))) [2]"
    by (simp add: scene_family_facts)
  from preorder_Cons [OF p1 preorder_Cons [OF p3 n]]
  have p0: "preorder scene_family (children (elems scene_family 0)) [1, 2, 3]"
    by (simp add: scene_family_facts)
  have 1: "VirtualElement_querySelectorAll 2 scene_family 0 ''p'' = Inr []"
    using T [where sel = "''p''", THEN conjunct1] by (simp add: scene_family_facts)
  have 2: "\<exists>k. \<forall>depth\<ge>k. VirtualElement_querySelectorAll depth scene_family 0 ''*'' = Inr [1, 2, 3]"
    using T [where sel = "''p''", THEN conjunct2, THEN conjunct1] p0 by blast
  have 3: "VirtualElement_querySelector 2 scene_family 0 ''*'' = Inr (Some 1)"
    using T [where sel = "''*''", THEN conjunct2, THEN conjunct2, THEN conjunct2]
    by (simp add: scene_family_facts)
  from 1 2 3 p0 show ?thesis by (simp add: scene_family_facts)
qed

section \<open>Cloning\<close>

lemma frame_refl: "frame s s"
  by (simp add: frame_def)

lemma frame_trans: "frame s s1 \<Longrightarrow> frame s1 s2 \<Longrightarrow> frame s s2"
  by (auto simp: frame_def)

lemma cloneNode_Suc:
  "cloneNode (Suc depth) s e deep =
     (if deep
      then (case cloneNodes depth (clone_shell s e) (children (elems (clone_shell s e) e)) of
              Inl err \<Rightarrow> Inl err
            | Inr r \<Rightarrow> Inr (upd_elem (fst r) (next_elem s) (\<lambda>x. x\<lparr>children := snd r\<rparr>), next_elem s))
      else Inr (clone_shell s e, next_elem s))"
  by (simp add: clone_shell_def Let_def)

declare cloneNode.simps(2) [simp del]

lemma clone_shell_frame: "frame s (clone_shell s e)"
  by (simp add: clone_shell_def frame_def new_VirtualElement_def upd_elem_def Let_def)

lemma clone_shell_next: "next_elem (clone_shell s e) = Suc (next_elem s)"
  by (simp add: clone_shell_def new_VirtualElement_def upd_elem_def Let_def)

lemma clone_shell_old: "r < next_elem s \<Longrightarrow> elems (clone_shell s e) r = elems s r"
  by (simp add: clone_shell_def new_VirtualElement_def upd_elem_def Let_def)

lemma clone_shell_new:
  "e < next_elem s \<Longrightarrow>
   elems (clone_shell s e) (next_elem s) =
     \<lparr>tagName = tagName (elems s e), isRemoved = False, attributes = attributes (elems s e),
      children = [], parent = parent (elems s e), parentDocument = parentDocument (elems s e),
      innerText = innerText (elems s e), eventListeners = (\<lambda>_. None)\<rparr>"
  by (simp add: clone_shell_def new_VirtualElement_def upd_elem_def Let_def)

lemma frame_upd_new:
  "frame s s' \<Longrightarrow> next_elem s \<le> c \<Longrightarrow> frame s (upd_elem s' c f)"
  by (auto simp: frame_def upd_elem_def)

lemma cloneNodes_frame_step:
  assumes IH: "\<And>s e r. cloneNode depth s e True = Inr r \<Longrightarrow>
     frame s (fst r) \<and> snd r = next_elem s \<and> next_elem s < next_elem (fst r)"
  shows "cloneNodes depth s cs = Inr r' \<Longrightarrow>
     frame s (fst r') \<and> (\<forall>c\<in>set (snd r'). next_elem s \<le> c \<and> c < next_elem (fst r'))"
proof (induction cs arbitrary: s r')
  case Nil
  then show ?case by (auto simp: frame_refl)
next
  case (Cons c cs)
  from Cons.prems obtain r1 r2 where
    r: "cloneNode depth s c True = Inr r1" "cloneNodes depth (fst r1) cs = Inr r2"
       "r' = (fst r2, snd r1 # snd r2)"
    by (auto split: sum.splits)
  from IH [OF r(1)] have 1: "frame s (fst r1)" "snd r1 = next_elem s" "next_elem s < next_elem (fst r1)"
    by auto
  from Cons.IH [OF r(2)] have 2: "frame (fst r1) (fst r2)"
    "\<forall>c\<in>set (snd r2). next_elem (fst r1) \<le> c \<and> c < next_elem (fst r2)" by auto
  from 1 2 have "frame s (fst r2)" by (blast intro: frame_trans)
  moreover from 1 2 have "next_elem s < next_elem (fst r2)" by (auto simp: frame_def)
  ultimately show ?case using 1 2 r(3) by auto
qed

lemma cloneNode_frame:
  "cloneNode depth s e deep = Inr r \<Longrightarrow>
   frame s (fst r) \<and> snd r = next_elem s \<and> next_elem s < next_elem (fst r)"
proof (induction depth arbitrary: s e deep r)
  case 0
  then show ?case by simp
next
  case (Suc depth)
  show ?case
  proof (cases deep)
    case False
    with Suc.prems have "r = (clone_shell s e, next_elem s)" by (simp add: cloneNode_Suc)
    then show ?thesis by (simp add: clone_shell_frame clone_shell_next)
  next
    case True
    with Suc.prems obtain r' where
      r': "cloneNodes depth (clone_shell s e) (children (elems (clone_shell s e) e)) = Inr r'"
          "r = (upd_elem (fst r') (next_elem s) (\<lambda>x. x\<lparr>children := snd r'\<rparr>), next_elem s)"
      by (auto simp: cloneNode_Suc split: sum.splits)
    from cloneNodes_frame_step [OF _ r'(1)] Suc.IH
    have f: "frame (clone_shell s e) (fst r')" by blast
    from clone_shell_frame [of s e] f have "frame s (fst r')" by (rule frame_trans)
    then have "frame s (upd_elem (fst r') (next_elem s) (\<lambda>x. x\<lparr>children := snd r'\<rparr>))"
      by (rule frame_upd_new) simp
    moreover from f have "next_elem s < next_elem (fst r')"
      by (simp add: frame_def clone_shell_next)
    ultimately show ?thesis using r'(2) by (simp add: upd_elem_def)
  qed
qed

lemma cloneNodes_frame:
  "cloneNodes depth s cs = Inr r' \<Longrightarrow>
     frame s (fst r') \<and> (\<forall>c\<in>set (snd r'). next_elem s \<le> c \<and> c < next_elem (fst r'))"
  by (rule cloneNodes_frame_step [OF cloneNode_frame])

lemma cloneNodes_error_step:
  assumes IH: "\<And>s e err. cloneNode depth s e True = Inl err \<Longrightarrow> err = RangeError"
  shows "cloneNodes depth s cs = Inl err \<Longrightarrow> err = RangeError"
proof (induction cs arbitrary: s)
  case Nil
  then show ?case by simp
next
  case (Cons c cs)
  then show ?case using IH by (auto split: sum.splits)
qed

lemma cloneNode_error: "cloneNode depth s e deep = Inl err \<Longrightarrow> err = RangeError"
proof (induction depth arbitrary: s e deep err)
  case 0
  then show ?case by simp
next
  case (Suc depth)
  then show ?case
    using cloneNodes_error_step [of depth]
    by (auto simp: cloneNode_Suc split: if_splits sum.splits)
qed

lemma height_child: "v \<in> set vs \<Longrightarrow> height v \<le> foldr max (map height vs) 0"
  by (induction vs) auto

lemma tree_at_transfer:
  "tree_at lo hi s r v \<Longrightarrow> lo' \<le> lo \<Longrightarrow> hi \<le> hi' \<Longrightarrow>
   (\<forall>x. lo \<le> x \<and> x < hi \<longrightarrow> elems s' x = elems s x) \<Longrightarrow> tree_at lo' hi' s' r v"
proof (induction rule: tree_at.induct)
  case (tree_at_Node r vs)
  from tree_at_Node
  have l: "list_all2 (tree_at lo' hi' s') (children (elems s r)) vs"
    by (auto elim!: list_all2_mono)
  from tree_at_Node have e: "elems s' r = elems s r" by simp
  from tree_at_Node have "lo' \<le> r" "r < hi'" by auto
  from tree_at.intros [of lo' r hi' s' vs, OF this] l e show ?case by simp
qed

lemma tree_at_inv:
  "tree_at lo hi s r (Node t p x vs) \<Longrightarrow>
   lo \<le> r \<and> r < hi \<and> t = tagName (elems s r) \<and> p = parent (elems s r) \<and>
   x = innerText (elems s r) \<and> list_all2 (tree_at lo hi s) (children (elems s r)) vs"
  by (auto elim: tree_at.cases)

lemma cloneNodes_tree_step:
  assumes IH: "\<And>s e v. height v \<le> depth \<Longrightarrow> tree_at 0 (next_elem s) s e v \<Longrightarrow>
      \<exists>s'. cloneNode depth s e True = Inr (s', next_elem s) \<and>
          tree_at (next_elem s) (next_elem s') s' (next_elem s) v"
  shows "\<forall>v\<in>set vs. height v \<le> depth \<Longrightarrow> list_all2 (tree_at 0 (next_elem s) s) cs vs \<Longrightarrow>
   \<exists>s' cs'. cloneNodes depth s cs = Inr (s', cs') \<and>
       list_all2 (tree_at (next_elem s) (next_elem s') s') cs' vs"
proof (induction cs arbitrary: vs s)
  case Nil
  then show ?case by simp
next
  case (Cons c cs)
  from Cons.prems(2) obtain v vs' where vs: "vs = v # vs'" "tree_at 0 (next_elem s) s c v"
    "list_all2 (tree_at 0 (next_elem s) s) cs vs'"
    by (auto simp: list_all2_Cons1)
  from IH [OF _ vs(2)] Cons.prems(1) vs(1) obtain s1 where
    s1: "cloneNode depth s c True = Inr (s1, next_elem s)"
        "tree_at (next_elem s) (next_elem s1) s1 (next_elem s) v"
    by auto
  from cloneNode_frame [OF s1(1)] have f: "frame s s1" by simp
  from vs(3) f have "list_all2 (tree_at 0 (next_elem s1) s1) cs vs'"
    by (auto simp: frame_def elim!: list_all2_mono tree_at_transfer)
  from Cons.IH [OF _ this] Cons.prems(1) vs(1) obtain s2 cs' where
    s2: "cloneNodes depth s1 cs = Inr (s2, cs')"
        "list_all2 (tree_at (next_elem s1) (next_elem s2) s2) cs' vs'"
    by auto
  from cloneNodes_frame [OF s2(1)] have f2: "frame s1 s2" by simp
  from s1(2) f2 have a: "tree_at (next_elem s) (next_elem s2) s2 (next_elem s) v"
    by (auto simp: frame_def elim!: tree_at_transfer)
  from s2(2) f have b: "list_all2 (tree_at (next_elem s) (next_elem s2) s2) cs' vs'"
    by (auto simp: frame_def elim!: list_all2_mono tree_at_transfer)
  from s1(1) s2(1) a b vs(1) show ?case by simp
qed

lemma cloneNode_tree:
  "height v \<le> depth \<Longrightarrow> tree_at 0 (next_elem s) s e v \<Longrightarrow>
   \<exists>s'. cloneNode depth s e True = Inr (s', next_elem s) \<and>
        tree_at (next_elem s) (next_elem s') s' (next_elem s) v"
proof (induction depth arbitrary: s e v)
  case 0
  then show ?case by (cases v) simp
next
  case (Suc depth)
  obtain t p x vs where v: "v = Node t p x vs" by (cases v)
  from Suc.prems(2) v have e: "e < next_elem s" "t = tagName (elems s e)" "p = parent (elems s e)"
    "x = innerText (elems s e)" "list_all2 (tree_at 0 (next_elem s) s) (children (elems s e)) vs"
    by (auto dest: tree_at_inv)
  let ?sh = "clone_shell s e"
  from e(5) have "list_all2 (tree_at 0 (next_elem ?sh) ?sh) (children (elems s e)) vs"
    by (auto simp: clone_shell_next clone_shell_old elim!: list_all2_mono tree_at_transfer)
  moreover from Suc.prems(1) v have "\<forall>v\<in>set vs. height v \<le> depth"
    using height_child by fastforce
  ultimately obtain s5 cs' where
    s5: "cloneNodes depth ?sh (children (elems s e)) = Inr (s5, cs')"
        "list_all2 (tree_at (next_elem ?sh) (next_elem s5) s5) cs' vs"
    using cloneNodes_tree_step [of depth vs ?sh "children (elems s e)"] Suc.IH by blast
  let ?s' = "upd_elem s5 (next_elem s) (\<lambda>x. x\<lparr>children := cs'\<rparr>)"
  from cloneNodes_frame [OF s5(1)] have f: "frame ?sh s5" by simp
  from e(1) s5(1) have c: "cloneNode (Suc depth) s e True = Inr (?s', next_elem s)"
    by (simp add: cloneNode_Suc clone_shell_old)
  from f e(1) have n: "elems ?s' (next_elem s) =
      \<lparr>tagName = tagName (elems s e), isRemoved = False, attributes = attributes (elems s e),
       children = cs', parent = parent (elems s e), parentDocument = parentDocument (elems s e),
       innerText = innerText (elems s e), eventListeners = (\<lambda>_. None)\<rparr>"
    by (simp add: frame_def clone_shell_next upd_elem_def clone_shell_new)
  from s5(2) have l: "list_all2 (tree_at (next_elem s) (next_elem ?s') ?s') cs' vs"
    by (auto simp: clone_shell_next upd_elem_def elim!: list_all2_mono tree_at_transfer)
  from f have "next_elem s < next_elem ?s'"
    by (simp add: frame_def clone_shell_next upd_elem_def)
  from tree_at.intros [of "next_elem s" "next_elem s" "next_elem ?s'" ?s' vs, OF _ this] l n e v
  have "tree_at (next_elem s) (next_elem ?s') ?s' (next_elem s) v" by simp
  with c show ?case by blast
qed

section \<open>Mutations of an element and the listeners\<close>

lemma same_above_refl: "same_above n s s"
  by (simp add: same_above_def)

lemma same_above_upd_elem:
  "same_above n s1 s2 \<Longrightarrow> x < n \<Longrightarrow> (\<And>y. parentDocument (f y) = parentDocument y) \<Longrightarrow>
   same_above n s1 (upd_elem s2 x f)"
  by (auto simp: same_above_def upd_elem_def)

lemma same_above_upd_dom:
  "same_above n s1 s2 \<Longrightarrow> (\<And>t. treeChangeListeners (h t) = treeChangeListeners t) \<Longrightarrow>
   same_above n s1 (upd_dom s2 d h)"
  by (auto simp: same_above_def upd_dom_def)

lemma same_above_upd_attrs: "same_above n s1 s2 \<Longrightarrow> same_above n s1 (upd_attrs s2 a g)"
  by (auto simp: same_above_def upd_attrs_def)

lemmas same_above_intros =
  same_above_upd_elem same_above_upd_dom same_above_upd_attrs same_above_refl

lemma tree_at_allocated: "tree_at lo hi s r v \<Longrightarrow> lo \<le> r \<and> r < hi"
  by (auto elim: tree_at.cases)

lemma notify_self_stores:
  "elems (notify_self m e c) = elems m"
  "doms (notify_self m e c) = doms m"
  "attrs (notify_self m e c) = attrs m"
  "next_elem (notify_self m e c) = next_elem m"
  "view_of (notify_self m e c) = view_of m"
  by (simp_all add: notify_self_def notifyTreeChange_def view_of_def)

lemma notify_after_clone:
  assumes c: "cloneNode depth s e True = Inr (s1, next_elem s)"
    and t: "tree_at (next_elem s) (next_elem s1) s1 (next_elem s) v"
    and e: "e < next_elem s"
    and sa: "same_above (next_elem s) s1 s2"
  shows "snapshot_call s e v (notify_self s2 e (next_elem s))"
proof -
  from sa have m: "next_elem s2 = next_elem s1" "calls s2 = calls s1"
      "\<forall>r\<ge>next_elem s. elems s2 r = elems s1 r"
      "parentDocument (elems s2 e) = parentDocument (elems s1 e)"
      "\<forall>d. treeChangeListeners (doms s2 d) = treeChangeListeners (doms s1 d)"
    by (simp_all add: same_above_def)
  from cloneNode_frame [OF c] have f: "frame s s1" by simp
  with e have 1: "calls s1 = calls s" "doms s1 = doms s" "elems s1 e = elems s e"
    by (simp_all add: frame_def)
  from t m(1,3) have "tree_at (next_elem s) (next_elem s2) s2 (next_elem s) v"
    by (auto elim!: tree_at_transfer)
  then have "tree_at (next_elem s) (next_elem (notify_self s2 e (next_elem s)))
      (notify_self s2 e (next_elem s)) (next_elem s) v"
    by (auto simp: notify_self_stores elim!: tree_at_transfer)
  moreover have "calls (notify_self s2 e (next_elem s)) = calls s @
      map (\<lambda>l. (l, e, next_elem s, view_of (notify_self s2 e (next_elem s))))
        (treeChangeListeners (doms s (parentDocument (elems s e))))"
    using m 1 by (simp add: notify_self_def notifyTreeChange_def view_of_def)
  ultimately show ?thesis unfolding snapshot_call_def by blast
qed

lemma clone_for_mutation:
  assumes "tree_at 0 (next_elem s) s e v" "height v \<le> depth"
  shows "\<exists>s1. cloneNode depth s e True = Inr (s1, next_elem s) \<and>
     tree_at (next_elem s) (next_elem s1) s1 (next_elem s) v \<and> e < next_elem s \<and>
     doms s1 = doms s \<and> (\<forall>r<next_elem s. elems s1 r = elems s r) \<and>
     (\<forall>a<next_attr s. attrs s1 a = attrs s a) \<and> calls s1 = calls s \<and>
     next_elem s \<le> next_elem s1"
proof -
  from cloneNode_tree [OF assms(2,1)] obtain s1 where
    c: "cloneNode depth s e True = Inr (s1, next_elem s)"
       "tree_at (next_elem s) (next_elem s1) s1 (next_elem s) v" by blast
  from assms(1) have e: "e < next_elem s" by (auto dest: tree_at_allocated)
  from cloneNode_frame [OF c(1)] have "frame s s1" by simp
  with c e show ?thesis by (auto simp: frame_def)
qed

lemma setAttribute_notifies:
  assumes "tree_at 0 (next_elem s) s e v" "height v \<le> depth"
  shows "\<exists>s'. VirtualElement_setAttribute depth s e name val = Inr s' \<and> snapshot_call s e v s' \<and>
     elems s' e = elems s e \<and> VirtualElement_getAttribute s' e name = val \<and>
     (attributes (elems s e) < next_attr s \<longrightarrow>
        attrs s' (attributes (elems s e)) =
          AList.update name val (attrs s (attributes (elems s e))))"
proof -
  from clone_for_mutation [OF assms] obtain s1 where
    c: "cloneNode depth s e True = Inr (s1, next_elem s)"
    and t: "tree_at (next_elem s) (next_elem s1) s1 (next_elem s) v"
    and e: "e < next_elem s"
    and f: "doms s1 = doms s" "\<forall>r<next_elem s. elems s1 r = elems s r"
      "\<forall>a<next_attr s. attrs s1 a = attrs s a"
    by blast
  define s' where
    "s' = notify_self (upd_attrs s1 (attributes (elems s1 e)) (AList.update name val)) e (next_elem s)"
  have r: "VirtualElement_setAttribute depth s e name val = Inr s'"
    by (simp add: VirtualElement_setAttribute_def c s'_def)
  have n: "snapshot_call s e v s'"
    unfolding s'_def by (intro notify_after_clone [OF c t e] same_above_intros)
  have x: "elems s' e = elems s e" "VirtualElement_getAttribute s' e name = val"
    "attributes (elems s e) < next_attr s \<longrightarrow>
        attrs s' (attributes (elems s e)) =
          AList.update name val (attrs s (attributes (elems s e)))"
    using e f
    by (simp_all add: notify_self_stores s'_def upd_attrs_def VirtualElement_getAttribute_def attribute_of_def
        update_conv')
  from r n x show ?thesis by blast
qed
















lemma scene_family_nodes:
  "next_elem scene_family = 9"
  "directChildren (doms scene_family 0) = [0]"
  "parentDocument (elems scene_family 0) = 0"
  "parentDocument (elems scene_family (Suc 0)) = 0"
  "tagName (elems scene_family 0) = ''div''"
  "parent (elems scene_family 0) = None"
  "parent (elems scene_family (Suc 0)) = Some 0"
  "parent (elems scene_family 2) = Some 1"
  "parent (elems scene_family 3) = Some 0"
  "innerText (elems scene_family 0) = []"
  "innerText (elems scene_family (Suc 0)) = []"
  "innerText (elems scene_family 2) = []"
  "innerText (elems scene_family 3) = []"
  by code_simp+


section \<open>The clone and the attributes\<close>

text \<open>
  C3 says that the clone's attributes are held in storage of their own. They are not:
  \<^verbatim>\<open>_duringClone().setAttributes\<close> stores the reference it is given, so the clone and the
  original hold one attribute object. Evaluated on the element \<open>0\<close> of \<open>scene0\<close>, whose
  \<^verbatim>\<open>id\<close> is undefined, and its clone \<open>4\<close>: \<^verbatim>\<open>setAttribute("id", "x")\<close> on the clone makes
  the original's \<^verbatim>\<open>id\<close> \<^verbatim>\<open>"x"\<close>, and \<^verbatim>\<open>setAttribute("id", "y")\<close> on the original makes
  the clone's \<^verbatim>\<open>id\<close> \<^verbatim>\<open>"y"\<close>.
\<close>

theorem cloneNode_shares_attribute_object:
  "(case cloneNode 1 scene0 0 True of Inl _ \<Rightarrow> None | Inr r \<Rightarrow> Some (snd r)) = Some 4 \<and>
   attributes (elems scene_cloned 4) = attributes (elems scene_cloned 0) \<and>
   attribute_of scene_cloned 0 ''id'' = Undefined \<and>
   attribute_of (the_heap (VirtualElement_setAttribute 1 scene_cloned 4 ''id'' (Str ''x''))) 0 ''id''
     = Str ''x'' \<and>
   attribute_of (the_heap (VirtualElement_setAttribute 1 scene_cloned 0 ''id'' (Str ''y''))) 4 ''id''
     = Str ''y''"
  by code_simp

section \<open>The dataset accessor\<close>

lemma set_AList_update: "set (AList.update k v al) \<subseteq> insert (k, v) (set al)"
  by (induction al) auto

lemma dataset_loop_entries:
  assumes step: "\<And>ky name. ky \<in> K \<Longrightarrow> startsWith ky ''data-'' \<Longrightarrow>
      camel_name up (drop 5 ky) = Inr name \<Longrightarrow> Q (name, ky)"
  shows "dataset_loop up depth e kys s acc = Inr (s1, ds) \<Longrightarrow> \<forall>x\<in>set acc. Q x \<Longrightarrow>
    set kys \<subseteq> K \<Longrightarrow> \<forall>x\<in>set ds. Q x"
proof (induction kys arbitrary: s acc)
  case Nil
  then show ?case by simp
next
  case (Cons ky kys)
  from Cons.prems(3) have K: "ky \<in> K" "set kys \<subseteq> K" by simp_all
  show ?case
  proof (cases "startsWith ky ''data-''")
    case False
    with Cons.prems(1) have "dataset_loop up depth e kys s acc = Inr (s1, ds)" by simp
    from Cons.IH [OF this Cons.prems(2) K(2)] show ?thesis .
  next
    case True
    show ?thesis
    proof (cases "camel_name up (drop 5 ky)")
      case (Inl err)
      with True Cons.prems(1) show ?thesis by (simp add: Let_def)
    next
      case (Inr name)
      from step [OF K(1) True Inr] have q: "Q (name, ky)" .
      show ?thesis
      proof (cases "map_of acc name")
        case None
        with True Inr Cons.prems(1) have
          "dataset_loop up depth e kys s (acc @ [(name, ky)]) = Inr (s1, ds)"
          by (simp add: Let_def)
        moreover from q Cons.prems(2) have "\<forall>x\<in>set (acc @ [(name, ky)]). Q x" by simp
        ultimately show ?thesis using Cons.IH K(2) by blast
      next
        case (Some earlier)
        show ?thesis
        proof (cases "VirtualElement_setAttribute depth s e earlier (attribute_of s e (drop 5 ky))")
          case (Inl err)
          with True \<open>camel_name up (drop 5 ky) = Inr name\<close> Some Cons.prems(1) show ?thesis
            by (simp add: Let_def)
        next
          case (Inr s')
          with True \<open>camel_name up (drop 5 ky) = Inr name\<close> Some Cons.prems(1) have
            "dataset_loop up depth e kys s' (AList.update name ky acc) = Inr (s1, ds)"
            by (simp add: Let_def)
          moreover from q Cons.prems(2) set_AList_update [of name ky acc]
          have "\<forall>x\<in>set (AList.update name ky acc). Q x" by auto
          ultimately show ?thesis using Cons.IH K(2) by blast
        qed
      qed
    qed
  qed
qed

lemma setAttribute_then_get:
  assumes "VirtualElement_setAttribute depth t e ky v = Inr t'"
    and "e < next_elem t" "attributes (elems t e) < next_attr t"
  shows "VirtualElement_getAttribute t' e ky = v"
proof -
  from assms(1) obtain s1 c where c: "cloneNode depth t e True = Inr (s1, c)"
    by (auto simp: VirtualElement_setAttribute_def split: sum.splits)
  from cloneNode_frame [OF c] assms(2,3) have
    f: "elems s1 e = elems t e" "attrs s1 (attributes (elems t e)) = attrs t (attributes (elems t e))"
    by (simp_all add: frame_def)
  from assms(1) c f show ?thesis
    by (auto simp: VirtualElement_setAttribute_def VirtualElement_getAttribute_def attribute_of_def
        notify_self_def notifyTreeChange_def upd_attrs_def update_conv')
qed

text \<open>
  C9: every property \<open>name\<close> of the object the \<^verbatim>\<open>dataset\<close> getter returns is bound to an
  attribute key \<open>ky\<close> of the element that starts with \<^verbatim>\<open>data-\<close> and whose camel-case form
  is \<open>name\<close>. Reading the property, in whatever state the element is then, is
  \<^verbatim>\<open>getAttribute(ky)\<close>; assigning it is \<^verbatim>\<open>setAttribute(ky, v)\<close>, which returns when the
  element's subtree can be cloned, and afterwards both \<^verbatim>\<open>getAttribute(ky)\<close> and the
  property read \<open>v\<close>. On a new \<^verbatim>\<open>button\<close> after \<^verbatim>\<open>setAttribute("data-test", "test")\<close> the
  getter returns the one property \<^verbatim>\<open>test\<close>, it reads \<^verbatim>\<open>"test"\<close>, and after
  \<^verbatim>\<open>dataset.test = "x"\<close> \<^verbatim>\<open>getAttribute("data-test")\<close> is \<^verbatim>\<open>"x"\<close>.
\<close>

theorem dataset_properties_live:
  "(VirtualElement_dataset toUpperCase depth s e = Inr (s1, ds) \<and> map_of ds name = Some ky \<longrightarrow>
      startsWith ky ''data-'' \<and> ky \<in> fst ` set (attrs s (attributes (elems s e))) \<and>
      camel_name toUpperCase (drop 5 ky) = Inr name \<and>
      (\<forall>t. dataset_get t e ds name = VirtualElement_getAttribute t e ky) \<and>
      (\<forall>t d v. dataset_set d t e ds name v = VirtualElement_setAttribute d t e ky v) \<and>
      (\<forall>t d val v. tree_at 0 (next_elem t) t e v \<and> height v \<le> d \<and>
           attributes (elems t e) < next_attr t \<longrightarrow>
           (\<exists>t'. dataset_set d t e ds name val = Inr t' \<and>
                 VirtualElement_getAttribute t' e ky = val \<and>
                 dataset_get t' e ds name = val))) \<and>
   map_sum id snd (VirtualElement_dataset toUpperCase_ascii 1 scene_button 0) =
     Inr [(''test'', ''data-test'')] \<and>
   dataset_get scene_button 0 [(''test'', ''data-test'')] ''test'' = Str ''test'' \<and>
   VirtualElement_getAttribute
     (the_heap (dataset_set 1 scene_button 0 [(''test'', ''data-test'')] ''test'' (Str ''x'')))
     0 ''data-test'' = Str ''x''"
proof (intro conjI impI)
  assume a: "VirtualElement_dataset toUpperCase depth s e = Inr (s1, ds) \<and> map_of ds name = Some ky"
  then have "(name, ky) \<in> set ds" by (auto dest: map_of_SomeD)
  with a dataset_loop_entries [of "fst ` set (attrs s (attributes (elems s e)))" toUpperCase
      "\<lambda>x. startsWith (snd x) ''data-'' \<and> snd x \<in> fst ` set (attrs s (attributes (elems s e))) \<and>
         camel_name toUpperCase (drop 5 (snd x)) = Inr (fst x)"
      depth e "map fst (attrs s (attributes (elems s e)))" s "[]" s1 ds]
  have "startsWith ky ''data-'' \<and> ky \<in> fst ` set (attrs s (attributes (elems s e))) \<and>
    camel_name toUpperCase (drop 5 ky) = Inr name"
    by (force simp: VirtualElement_dataset_def)
  then show "startsWith ky ''data-''" "ky \<in> fst ` set (attrs s (attributes (elems s e)))"
    "camel_name toUpperCase (drop 5 ky) = Inr name"
    by simp_all
  from a show "\<forall>t. dataset_get t e ds name = VirtualElement_getAttribute t e ky"
    by (simp add: dataset_get_def)
  from a show "\<forall>t d v. dataset_set d t e ds name v = VirtualElement_setAttribute d t e ky v"
    by (simp add: dataset_set_def)
  show "\<forall>t d val v. tree_at 0 (next_elem t) t e v \<and> height v \<le> d \<and>
           attributes (elems t e) < next_attr t \<longrightarrow>
           (\<exists>t'. dataset_set d t e ds name val = Inr t' \<and>
                 VirtualElement_getAttribute t' e ky = val \<and>
                 dataset_get t' e ds name = val)"
  proof (intro allI impI, elim conjE)
    fix t d val v
    assume t: "tree_at 0 (next_elem t) t e v" and h: "height v \<le> d"
      and at: "attributes (elems t e) < next_attr t"
    from setAttribute_notifies [OF t h, of ky val] obtain t' where
      t': "VirtualElement_setAttribute d t e ky val = Inr t'" by blast
    from t have "e < next_elem t" by (auto dest: tree_at_allocated)
    from setAttribute_then_get [OF t' this at] have "VirtualElement_getAttribute t' e ky = val" .
    with a t' show "\<exists>t'. dataset_set d t e ds name val = Inr t' \<and>
                 VirtualElement_getAttribute t' e ky = val \<and>
                 dataset_get t' e ds name = val"
      by (simp add: dataset_set_def dataset_get_def)
  qed
next
  show "map_sum id snd (VirtualElement_dataset toUpperCase_ascii 1 scene_button 0) =
     Inr [(''test'', ''data-test'')]"
    by code_simp
  show "dataset_get scene_button 0 [(''test'', ''data-test'')] ''test'' = Str ''test''"
    by code_simp
  show "VirtualElement_getAttribute
     (the_heap (dataset_set 1 scene_button 0 [(''test'', ''data-test'')] ''test'' (Str ''x'')))
     0 ''data-test'' = Str ''x''"
    by code_simp
qed


lemma scene_button_facts:
  "map_sum id snd (VirtualElement_dataset toUpperCase_ascii 1 scene_button 0) =
     Inr [(''test'', ''data-test'')]"
  "next_elem scene_button = 2"
  "tagName (elems scene_button 0) = ''button''"
  "parent (elems scene_button 0) = None"
  "innerText (elems scene_button 0) = []"
  "children (elems scene_button 0) = []"
  "attributes (elems scene_button 0) < next_attr scene_button"
  by code_simp+

theorem dataset_properties_live_witness:
  "startsWith ''data-test'' ''data-'' \<and>
   (\<exists>t'. dataset_set 1 scene_button 0 [(''test'', ''data-test'')] ''test'' (Str ''x'') = Inr t' \<and>
      VirtualElement_getAttribute t' 0 ''data-test'' = Str ''x'' \<and>
      dataset_get t' 0 [(''test'', ''data-test'')] ''test'' = Str ''x'')"
proof -
  from scene_button_facts(1) obtain s1 where
    d: "VirtualElement_dataset toUpperCase_ascii 1 scene_button 0 = Inr (s1, [(''test'', ''data-test'')])"
    by (cases "VirtualElement_dataset toUpperCase_ascii 1 scene_button 0") auto
  have t: "tree_at 0 (next_elem scene_button) scene_button 0 (Node ''button'' None [] [])"
    using tree_at.intros [of 0 0 "next_elem scene_button" scene_button "[]"]
    by (simp add: scene_button_facts)
  have h: "height (Node ''button'' None [] []) \<le> 1" by simp
  have m: "map_of [(''test'', ''data-test'')] ''test'' = Some ''data-test''" by simp
  note C = dataset_properties_live [where toUpperCase = toUpperCase_ascii and depth = 1
      and s = scene_button and e = 0 and ?s1.0 = s1 and ds = "[(''test'', ''data-test'')]"
      and name = "''test''" and ky = "''data-test''", THEN conjunct1, THEN mp, OF conjI [OF d m]]
  from C have 1: "startsWith ''data-test'' ''data-''" by (rule conjunct1)
  from C have "\<forall>t d val v. tree_at 0 (next_elem t) t 0 v \<and> height v \<le> d \<and>
           attributes (elems t 0) < next_attr t \<longrightarrow>
           (\<exists>t'. dataset_set d t 0 [(''test'', ''data-test'')] ''test'' val = Inr t' \<and>
                 VirtualElement_getAttribute t' 0 ''data-test'' = val \<and>
                 dataset_get t' 0 [(''test'', ''data-test'')] ''test'' = val)"
    by blast
  with t h scene_button_facts(7) have 2:
    "\<exists>t'. dataset_set 1 scene_button 0 [(''test'', ''data-test'')] ''test'' (Str ''x'') = Inr t' \<and>
      VirtualElement_getAttribute t' 0 ''data-test'' = Str ''x'' \<and>
      dataset_get t' 0 [(''test'', ''data-test'')] ''test'' = Str ''x''"
    by blast
  from 1 2 show ?thesis by blast
qed

section \<open>Removing and replacing a child\<close>

lemma VirtualDOM_removeChild_cases:
  "(VirtualDOM_removeChild s d n = Inl NotFound) =
     (n \<notin> set (directChildren (doms s d)) \<and> n \<notin> set (dom_children (doms s d)))"
  "directChildren (doms s d) = pre @ n # post \<Longrightarrow> n \<notin> set pre \<Longrightarrow>
   VirtualDOM_removeChild s d n =
     Inr (s\<lparr>doms := (doms s)(d := (doms s d)\<lparr>directChildren := pre @ post\<rparr>),
            elems := (elems s)(n := (elems s n)\<lparr>isRemoved := True\<rparr>)\<rparr>)"
  "n \<notin> set (directChildren (doms s d)) \<Longrightarrow> dom_children (doms s d) = pre @ n # post \<Longrightarrow>
   n \<notin> set pre \<Longrightarrow>
   VirtualDOM_removeChild s d n =
     Inr (s\<lparr>doms := (doms s)(d := (doms s d)\<lparr>dom_children := pre @ post\<rparr>),
            elems := (elems s)(n := (elems s n)\<lparr>isRemoved := True\<rparr>)\<rparr>)"
proof -
  show "(VirtualDOM_removeChild s d n = Inl NotFound) =
     (n \<notin> set (directChildren (doms s d)) \<and> n \<notin> set (dom_children (doms s d)))"
    by (simp add: VirtualDOM_removeChild_def Let_def indexOf_absent)
next
  assume a: "directChildren (doms s d) = pre @ n # post" "n \<notin> set pre"
  then have "indexOf (directChildren (doms s d)) n \<noteq> - 1" by (simp add: indexOf_absent)
  moreover from a have "splice (directChildren (doms s d)) (indexOf (directChildren (doms s d)) n) 1 []
      = pre @ post" by (simp add: splice_delete_found)
  ultimately show "VirtualDOM_removeChild s d n =
     Inr (s\<lparr>doms := (doms s)(d := (doms s d)\<lparr>directChildren := pre @ post\<rparr>),
            elems := (elems s)(n := (elems s n)\<lparr>isRemoved := True\<rparr>)\<rparr>)"
    by (simp add: VirtualDOM_removeChild_def Let_def upd_dom_def upd_elem_def)
next
  assume a: "n \<notin> set (directChildren (doms s d))" "dom_children (doms s d) = pre @ n # post"
    "n \<notin> set pre"
  then have "indexOf (directChildren (doms s d)) n = - 1" "indexOf (dom_children (doms s d)) n \<noteq> - 1"
    by (simp_all add: indexOf_absent)
  moreover from a have "splice (dom_children (doms s d)) (indexOf (dom_children (doms s d)) n) 1 []
      = pre @ post" by (simp add: splice_delete_found)
  ultimately show "VirtualDOM_removeChild s d n =
     Inr (s\<lparr>doms := (doms s)(d := (doms s d)\<lparr>dom_children := pre @ post\<rparr>),
            elems := (elems s)(n := (elems s n)\<lparr>isRemoved := True\<rparr>)\<rparr>)"
    by (simp add: VirtualDOM_removeChild_def Let_def upd_dom_def upd_elem_def)
qed

lemma VirtualDOM_replaceChild_cases:
  "isRemoved (elems s n) \<Longrightarrow> VirtualDOM_replaceChild s d n old = Inr s"
  "\<not> isRemoved (elems s n) \<Longrightarrow>
   (VirtualDOM_replaceChild s d n old = Inl NotFound) =
     (old \<notin> set (directChildren (doms s d)) \<and> old \<notin> set (dom_children (doms s d)))"
  "\<not> isRemoved (elems s n) \<Longrightarrow> directChildren (doms s d) = pre @ old # post \<Longrightarrow> old \<notin> set pre \<Longrightarrow>
   VirtualDOM_replaceChild s d n old =
     Inr (s\<lparr>doms := (doms s)(d := (doms s d)\<lparr>directChildren := pre @ n # post\<rparr>)\<rparr>)"
  "\<not> isRemoved (elems s n) \<Longrightarrow> old \<notin> set (directChildren (doms s d)) \<Longrightarrow>
   dom_children (doms s d) = pre @ old # post \<Longrightarrow> old \<notin> set pre \<Longrightarrow>
   VirtualDOM_replaceChild s d n old =
     Inr (s\<lparr>doms := (doms s)(d := (doms s d)\<lparr>dom_children := pre @ n # post\<rparr>)\<rparr>)"
proof -
  show "isRemoved (elems s n) \<Longrightarrow> VirtualDOM_replaceChild s d n old = Inr s"
    by (simp add: VirtualDOM_replaceChild_def)
  show "\<not> isRemoved (elems s n) \<Longrightarrow>
   (VirtualDOM_replaceChild s d n old = Inl NotFound) =
     (old \<notin> set (directChildren (doms s d)) \<and> old \<notin> set (dom_children (doms s d)))"
    by (simp add: VirtualDOM_replaceChild_def array_includes_def Let_def)
next
  assume a: "\<not> isRemoved (elems s n)" "directChildren (doms s d) = pre @ old # post" "old \<notin> set pre"
  then have "assign_at (directChildren (doms s d)) (indexOf (directChildren (doms s d)) old) n
      = pre @ n # post" by (simp add: assign_at_found)
  with a show "VirtualDOM_replaceChild s d n old =
     Inr (s\<lparr>doms := (doms s)(d := (doms s d)\<lparr>directChildren := pre @ n # post\<rparr>)\<rparr>)"
    by (simp add: VirtualDOM_replaceChild_def array_includes_def Let_def upd_dom_def)
next
  assume a: "\<not> isRemoved (elems s n)" "old \<notin> set (directChildren (doms s d))"
    "dom_children (doms s d) = pre @ old # post" "old \<notin> set pre"
  then have "assign_at (dom_children (doms s d)) (indexOf (dom_children (doms s d)) old) n
      = pre @ n # post" by (simp add: assign_at_found)
  with a show "VirtualDOM_replaceChild s d n old =
     Inr (s\<lparr>doms := (doms s)(d := (doms s d)\<lparr>dom_children := pre @ n # post\<rparr>)\<rparr>)"
    by (simp add: VirtualDOM_replaceChild_def array_includes_def Let_def upd_dom_def)
qed

lemma VirtualElement_replaceChild_NotFound:
  "(VirtualElement_replaceChild depth s e n old = Inl NotFound) =
     (old \<notin> set (children (elems s e)))"
  using cloneNode_error [of depth s e True]
  by (auto simp: VirtualElement_replaceChild_def array_includes_def Let_def split: sum.splits)

lemma VirtualElement_replaceChild_present:
  assumes "children (elems s e) = pre @ old # post" "old \<notin> set pre"
    and "tree_at 0 (next_elem s) s e v" "height v \<le> depth"
  shows "\<exists>s'. VirtualElement_replaceChild depth s e n old = Inr s' \<and>
     children (elems s' e) = pre @ n # post \<and> parent (elems s' n) = Some e \<and>
     directChildren (doms s' (parentDocument (elems s e))) =
       directChildren (doms s (parentDocument (elems s e))) \<and>
     (\<forall>cpre cpost. dom_children (doms s (parentDocument (elems s e))) = cpre @ old # cpost \<and>
        old \<notin> set cpre \<longrightarrow>
        dom_children (doms s' (parentDocument (elems s e))) = cpre @ n # cpost) \<and>
     (old \<notin> set (dom_children (doms s (parentDocument (elems s e)))) \<longrightarrow>
        dom_children (doms s' (parentDocument (elems s e))) =
          dom_children (doms s (parentDocument (elems s e))))"
proof -
  from cloneNode_tree [OF assms(4,3)] obtain s1 where
    c: "cloneNode depth s e True = Inr (s1, next_elem s)" by blast
  from assms(3) have e: "e < next_elem s" by (auto dest: tree_at_allocated)
  from cloneNode_frame [OF c] e have f: "doms s1 = doms s" "elems s1 e = elems s e"
    by (simp_all add: frame_def)
  from assms(1,2) have a: "assign_at (pre @ old # post) (indexOf (pre @ old # post) old) n = pre @ n # post"
    by (simp add: assign_at_found)
  show ?thesis
    using assms(1,2) c f a
    by (auto simp: VirtualElement_replaceChild_def array_includes_def Let_def upd_elem_def upd_dom_def
        notify_self_def notifyTreeChange_def assign_at_found assign_at_absent)
qed

lemma VirtualElement_removeChild_present:
  assumes "children (elems s e) = pre @ c # post" "c \<notin> set pre"
    and "tree_at 0 (next_elem s) s e v" "height v \<le> depth"
  shows "\<exists>s'. VirtualElement_removeChild depth s e c = Inr s' \<and>
     children (elems s' e) = pre @ post \<and> isRemoved (elems s' c) \<and>
     directChildren (doms s' (parentDocument (elems s e))) =
       directChildren (doms s (parentDocument (elems s e))) \<and>
     (\<forall>cpre cpost. dom_children (doms s (parentDocument (elems s e))) = cpre @ c # cpost \<and>
        c \<notin> set cpre \<longrightarrow>
        dom_children (doms s' (parentDocument (elems s e))) = cpre @ cpost)"
proof -
  from cloneNode_tree [OF assms(4,3)] obtain s1 where
    c: "cloneNode depth s e True = Inr (s1, next_elem s)" by blast
  from assms(3) have e: "e < next_elem s" by (auto dest: tree_at_allocated)
  from cloneNode_frame [OF c] e have f: "doms s1 = doms s" "elems s1 e = elems s e"
    by (simp_all add: frame_def)
  from assms(1,2) have a: "splice (pre @ c # post) (indexOf (pre @ c # post) c) 1 [] = pre @ post"
    by (simp add: splice_delete_found)
  show ?thesis
    using assms(1,2) c f a
    by (auto simp: VirtualElement_removeChild_def Let_def upd_elem_def upd_dom_def
        notify_self_def notifyTreeChange_def splice_delete_found)
qed

text \<open>
  C4, as stated: \<^verbatim>\<open>removeChild\<close> and \<^verbatim>\<open>replaceChild\<close>, on the tree and on an element alike,
  signal \<^verbatim>\<open>NotFound\<close> exactly when the target is absent. Two cases differ. The tree's
  \<^verbatim>\<open>replaceChild\<close> returns at once when the new child is removed: with the removed node
  \<open>1\<close> as new child and the node \<open>3\<close>, which is in neither list, as old child it throws
  nothing. And the element's \<^verbatim>\<open>removeChild\<close> has no check at all: on the element \<open>0\<close> of
  \<open>scene_family\<close>, whose children are \<open>1\<close> and \<open>3\<close>, removing the node \<open>2\<close> throws nothing
  and takes the last child \<open>3\<close> out instead, since \<^verbatim>\<open>splice(-1, 1)\<close> removes the last
  element.
\<close>

theorem NotFound_counterexample:
  "isRemoved (elems scene_removed 1) \<and>
   3 \<notin> set (directChildren (doms scene_removed 0)) \<and>
   3 \<notin> set (dom_children (doms scene_removed 0)) \<and>
   thrown (VirtualDOM_replaceChild scene_removed 0 1 3) = None \<and>
   children (elems scene_family 0) = [1, 3] \<and>
   thrown (VirtualElement_removeChild 3 scene_family 0 2) = None \<and>
   children (elems (the_heap (VirtualElement_removeChild 3 scene_family 0 2)) 0) = [1]"
  by code_simp

text \<open>
  C4, amended. The tree's \<^verbatim>\<open>removeChild\<close> throws \<^verbatim>\<open>NotFound\<close> exactly when the node is in
  neither list; otherwise it takes the first occurrence out of the top-level list, or else
  out of the list of descendants, and marks the node removed. The tree's \<^verbatim>\<open>replaceChild\<close>
  changes nothing and throws nothing when the new child is removed; otherwise it throws
  \<^verbatim>\<open>NotFound\<close> exactly when the old child is in neither list, and else overwrites its first
  occurrence in the top-level list, or else in the list of descendants. An element's
  \<^verbatim>\<open>replaceChild\<close> throws \<^verbatim>\<open>NotFound\<close> exactly when the old child is not among its
  children; when it is (and the element can be cloned) the first occurrence is overwritten
  in the children and, where the tree's list of descendants holds the old child, there too,
  and the new child's parent is the element. An element's \<^verbatim>\<open>removeChild\<close> of a node that is
  among its children (when the element can be cloned) takes the first occurrence out of the
  children and, where the list of descendants holds it, out of that list, and marks the
  node removed. What an element's \<^verbatim>\<open>removeChild\<close> does with a node that is not among its
  children is not part of the statement.
\<close>

theorem NotFound_exactly_when_absent:
  "((VirtualDOM_removeChild s d n = Inl NotFound) =
      (n \<notin> set (directChildren (doms s d)) \<and> n \<notin> set (dom_children (doms s d)))) \<and>
   (directChildren (doms s d) = pre @ n # post \<and> n \<notin> set pre \<longrightarrow>
      VirtualDOM_removeChild s d n =
        Inr (s\<lparr>doms := (doms s)(d := (doms s d)\<lparr>directChildren := pre @ post\<rparr>),
               elems := (elems s)(n := (elems s n)\<lparr>isRemoved := True\<rparr>)\<rparr>)) \<and>
   (n \<notin> set (directChildren (doms s d)) \<and> dom_children (doms s d) = pre @ n # post \<and>
    n \<notin> set pre \<longrightarrow>
      VirtualDOM_removeChild s d n =
        Inr (s\<lparr>doms := (doms s)(d := (doms s d)\<lparr>dom_children := pre @ post\<rparr>),
               elems := (elems s)(n := (elems s n)\<lparr>isRemoved := True\<rparr>)\<rparr>)) \<and>
   (isRemoved (elems s n) \<longrightarrow> VirtualDOM_replaceChild s d n old = Inr s) \<and>
   (\<not> isRemoved (elems s n) \<longrightarrow>
      (VirtualDOM_replaceChild s d n old = Inl NotFound) =
        (old \<notin> set (directChildren (doms s d)) \<and> old \<notin> set (dom_children (doms s d)))) \<and>
   (\<not> isRemoved (elems s n) \<and> directChildren (doms s d) = pre @ old # post \<and> old \<notin> set pre \<longrightarrow>
      VirtualDOM_replaceChild s d n old =
        Inr (s\<lparr>doms := (doms s)(d := (doms s d)\<lparr>directChildren := pre @ n # post\<rparr>)\<rparr>)) \<and>
   (\<not> isRemoved (elems s n) \<and> old \<notin> set (directChildren (doms s d)) \<and>
    dom_children (doms s d) = pre @ old # post \<and> old \<notin> set pre \<longrightarrow>
      VirtualDOM_replaceChild s d n old =
        Inr (s\<lparr>doms := (doms s)(d := (doms s d)\<lparr>dom_children := pre @ n # post\<rparr>)\<rparr>)) \<and>
   ((VirtualElement_replaceChild depth s e n old = Inl NotFound) =
      (old \<notin> set (children (elems s e)))) \<and>
   (children (elems s e) = pre @ old # post \<and> old \<notin> set pre \<and>
    tree_at 0 (next_elem s) s e v \<and> height v \<le> depth \<longrightarrow>
      (\<exists>s'. VirtualElement_replaceChild depth s e n old = Inr s' \<and>
         children (elems s' e) = pre @ n # post \<and> parent (elems s' n) = Some e \<and>
         directChildren (doms s' (parentDocument (elems s e))) =
           directChildren (doms s (parentDocument (elems s e))) \<and>
         (\<forall>cpre cpost. dom_children (doms s (parentDocument (elems s e))) = cpre @ old # cpost \<and>
            old \<notin> set cpre \<longrightarrow>
            dom_children (doms s' (parentDocument (elems s e))) = cpre @ n # cpost) \<and>
         (old \<notin> set (dom_children (doms s (parentDocument (elems s e)))) \<longrightarrow>
            dom_children (doms s' (parentDocument (elems s e))) =
              dom_children (doms s (parentDocument (elems s e)))))) \<and>
   (children (elems s e) = pre @ n # post \<and> n \<notin> set pre \<and>
    tree_at 0 (next_elem s) s e v \<and> height v \<le> depth \<longrightarrow>
      (\<exists>s'. VirtualElement_removeChild depth s e n = Inr s' \<and>
         children (elems s' e) = pre @ post \<and> isRemoved (elems s' n) \<and>
         directChildren (doms s' (parentDocument (elems s e))) =
           directChildren (doms s (parentDocument (elems s e))) \<and>
         (\<forall>cpre cpost. dom_children (doms s (parentDocument (elems s e))) = cpre @ n # cpost \<and>
            n \<notin> set cpre \<longrightarrow>
            dom_children (doms s' (parentDocument (elems s e))) = cpre @ cpost)))"
  apply (intro conjI impI)
           apply (rule VirtualDOM_removeChild_cases(1))
          apply (elim conjE, erule (1) VirtualDOM_removeChild_cases(2))
         apply (elim conjE, erule (2) VirtualDOM_removeChild_cases(3))
        apply (erule VirtualDOM_replaceChild_cases(1))
       apply (erule VirtualDOM_replaceChild_cases(2))
      apply (elim conjE, erule (2) VirtualDOM_replaceChild_cases(3))
     apply (elim conjE, erule (3) VirtualDOM_replaceChild_cases(4))
    apply (rule VirtualElement_replaceChild_NotFound)
   apply (elim conjE, erule (3) VirtualElement_replaceChild_present)
  apply (elim conjE, erule (3) VirtualElement_removeChild_present)
  done


lemma scene_top2_facts:
  "directChildren (doms scene_top2 0) = [0, 1]"
  "dom_children (doms scene_top2 0) = []"
  "isRemoved (elems scene_top2 2) = False"
  by code_simp+

lemma scene_family_tree:
  "tree_at 0 (next_elem scene_family) scene_family 0
     (Node ''div'' None [] [Node ''span'' (Some 0) [] [Node ''p'' (Some 1) [] []],
        Node ''div'' (Some 0) [] []])"
proof -
  let ?v2 = "Node ''p'' (Some 1) [] []"
  let ?v3 = "Node ''div'' (Some 0) [] []"
  let ?v1 = "Node ''span'' (Some 0) [] [?v2]"
  have t2: "tree_at 0 (next_elem scene_family) scene_family 2 ?v2"
    using tree_at.intros [of 0 2 "next_elem scene_family" scene_family "[]"]
    by (simp add: scene_family_facts scene_family_nodes)
  have t3: "tree_at 0 (next_elem scene_family) scene_family 3 ?v3"
    using tree_at.intros [of 0 3 "next_elem scene_family" scene_family "[]"]
    by (simp add: scene_family_facts scene_family_nodes)
  have t1: "tree_at 0 (next_elem scene_family) scene_family 1 ?v1"
    using tree_at.intros [of 0 1 "next_elem scene_family" scene_family "[?v2]"] t2
    by (simp add: scene_family_facts scene_family_nodes)
  show ?thesis
    using tree_at.intros [of 0 0 "next_elem scene_family" scene_family "[?v1, ?v3]"] t1 t3
    by (simp add: scene_family_facts scene_family_nodes)
qed

theorem NotFound_exactly_when_absent_witness:
  "VirtualDOM_removeChild scene_top2 0 3 = Inl NotFound \<and>
   VirtualDOM_replaceChild scene_top2 0 2 3 = Inl NotFound \<and>
   VirtualDOM_removeChild scene_top2 0 1 =
     Inr (scene_top2\<lparr>doms := (doms scene_top2)(0 := (doms scene_top2 0)\<lparr>directChildren := [0]\<rparr>),
            elems := (elems scene_top2)(1 := (elems scene_top2 1)\<lparr>isRemoved := True\<rparr>)\<rparr>) \<and>
   VirtualDOM_replaceChild scene_top2 0 2 1 =
     Inr (scene_top2\<lparr>doms := (doms scene_top2)(0 := (doms scene_top2 0)\<lparr>directChildren := [0, 2]\<rparr>)\<rparr>) \<and>
   VirtualElement_replaceChild 0 scene_top2 0 2 3 = Inl NotFound \<and>
   (\<exists>s'. VirtualElement_removeChild 3 scene_family 0 3 = Inr s' \<and>
      children (elems s' 0) = [1] \<and> isRemoved (elems s' 3) \<and>
      dom_children (doms s' 0) = [1, 2]) \<and>
   (\<exists>s'. VirtualElement_replaceChild 3 scene_family 0 2 3 = Inr s' \<and>
      children (elems s' 0) = [1, 2] \<and> parent (elems s' 2) = Some 0)"
proof -
  note T = NotFound_exactly_when_absent [where s = scene_top2 and d = 0]
  have 1: "VirtualDOM_removeChild scene_top2 0 3 = Inl NotFound"
    using T [where n = 3, THEN conjunct1] by (simp add: scene_top2_facts)
  have 2: "VirtualDOM_replaceChild scene_top2 0 2 3 = Inl NotFound"
    using T [where n = 2 and old = 3, THEN conjunct2, THEN conjunct2, THEN conjunct2,
        THEN conjunct2, THEN conjunct1]
    by (simp add: scene_top2_facts)
  have 3: "VirtualDOM_removeChild scene_top2 0 1 =
     Inr (scene_top2\<lparr>doms := (doms scene_top2)(0 := (doms scene_top2 0)\<lparr>directChildren := [0]\<rparr>),
            elems := (elems scene_top2)(1 := (elems scene_top2 1)\<lparr>isRemoved := True\<rparr>)\<rparr>)"
    using T [where n = 1 and pre = "[0]" and post = "[]", THEN conjunct2, THEN conjunct1]
    by (simp add: scene_top2_facts)
  have 4: "VirtualDOM_replaceChild scene_top2 0 2 1 =
     Inr (scene_top2\<lparr>doms := (doms scene_top2)(0 := (doms scene_top2 0)\<lparr>directChildren := [0, 2]\<rparr>)\<rparr>)"
    using T [where n = 2 and old = 1 and pre = "[0]" and post = "[]", THEN conjunct2, THEN conjunct2,
        THEN conjunct2, THEN conjunct2, THEN conjunct2, THEN conjunct1]
    by (simp add: scene_top2_facts)
  have "children (elems scene_top2 0) = []" by code_simp
  then have 5: "VirtualElement_replaceChild 0 scene_top2 0 2 3 = Inl NotFound"
    using T [where e = 0 and n = 2 and old = 3 and depth = 0, THEN conjunct2, THEN conjunct2,
        THEN conjunct2, THEN conjunct2, THEN conjunct2, THEN conjunct2, THEN conjunct2, THEN conjunct1]
    by simp
  let ?v0 = "Node ''div'' None [] [Node ''span'' (Some 0) [] [Node ''p'' (Some 1) [] []],
        Node ''div'' (Some 0) [] []]"
  have h: "height ?v0 \<le> 3" by simp
  have c: "children (elems scene_family 0) = [1] @ 3 # []" "3 \<notin> set [1::nat]"
    by (simp_all add: scene_family_facts)
  have dc: "dom_children (doms scene_family 0) = [1, 2] @ 3 # []" "3 \<notin> set [1, 2::nat]"
    "parentDocument (elems scene_family 0) = 0"
    by code_simp+
  note U = NotFound_exactly_when_absent [where s = scene_family and e = 0 and depth = 3
      and v = ?v0 and pre = "[1]" and post = "[]"]
  from U [where n = 3, THEN conjunct2, THEN conjunct2, THEN conjunct2, THEN conjunct2,
      THEN conjunct2, THEN conjunct2, THEN conjunct2, THEN conjunct2, THEN conjunct2]
    c scene_family_tree h
  obtain s6 where s6: "VirtualElement_removeChild 3 scene_family 0 3 = Inr s6"
    "children (elems s6 0) = [1] @ []" "isRemoved (elems s6 3)"
    "\<forall>cpre cpost. dom_children (doms scene_family (parentDocument (elems scene_family 0))) =
        cpre @ 3 # cpost \<and> 3 \<notin> set cpre \<longrightarrow>
        dom_children (doms s6 (parentDocument (elems scene_family 0))) = cpre @ cpost"
    by blast
  from s6(4) [rule_format, of "[1, 2]" "[]"] dc
  have "dom_children (doms s6 0) = [1, 2] @ []" by simp
  with s6 have 6: "\<exists>s'. VirtualElement_removeChild 3 scene_family 0 3 = Inr s' \<and>
      children (elems s' 0) = [1] \<and> isRemoved (elems s' 3) \<and>
      dom_children (doms s' 0) = [1, 2]"
    by simp
  from U [where n = 2 and old = 3, THEN conjunct2, THEN conjunct2, THEN conjunct2, THEN conjunct2,
      THEN conjunct2, THEN conjunct2, THEN conjunct2, THEN conjunct2, THEN conjunct1]
    c scene_family_tree h
  have 7: "\<exists>s'. VirtualElement_replaceChild 3 scene_family 0 2 3 = Inr s' \<and>
      children (elems s' 0) = [1, 2] \<and> parent (elems s' 2) = Some 0"
    by auto
  from 1 2 3 4 5 6 7 show ?thesis by blast
qed

section \<open>Operations and the placement of nodes\<close>

lemma tree_inv_one_state:
  "tree_inv s \<Longrightarrow> parentDocument (elems s n) < next_dom s \<Longrightarrow> one_state s n"
  unfolding tree_inv_def dom_ok_def one_state_def top_level_def attached_def in_neither_def
  by blast

lemma splice_set_insert: "set (splice xs i 0 [n]) = insert n (set xs)"
proof -
  have "set (take k xs) \<union> set (drop k xs) = set xs" for k
    using set_append [of "take k xs" "drop k xs"] by simp
  then show ?thesis by (auto simp: splice_def Let_def)
qed

lemma splice_distinct_insert: "distinct xs \<Longrightarrow> n \<notin> set xs \<Longrightarrow> distinct (splice xs i 0 [n])"
  using set_take_disj_set_drop_if_distinct [of xs]
  by (auto simp: splice_def Let_def dest: in_set_takeD in_set_dropD)

lemma splice_set_delete: "set (splice xs i k []) \<subseteq> set xs"
  by (auto simp: splice_def Let_def dest: in_set_takeD in_set_dropD)

lemma splice_distinct_delete: "distinct xs \<Longrightarrow> distinct (splice xs i k [])"
  using set_take_disj_set_drop_if_distinct [of xs]
  by (simp add: splice_def Let_def)

lemma assign_at_set: "set (assign_at xs i v) \<subseteq> insert v (set xs)"
  by (auto simp: assign_at_def dest: set_update_subset_insert [THEN subsetD])

lemma assign_at_distinct: "distinct xs \<Longrightarrow> v \<notin> set xs \<Longrightarrow> distinct (assign_at xs i v)"
  by (auto simp: assign_at_def distinct_list_update)

lemma dom_ok_shrink:
  assumes ok: "dom_ok s d"
    and D: "set (directChildren (doms s' d)) \<subseteq> set (directChildren (doms s d))"
      "distinct (directChildren (doms s' d))"
    and C: "set (dom_children (doms s' d)) \<subseteq> set (dom_children (doms s d))"
      "distinct (dom_children (doms s' d))"
    and ne: "next_elem s \<le> next_elem s'"
    and el: "\<And>n. n < next_elem s \<Longrightarrow> parentDocument (elems s n) = d \<Longrightarrow>
        parentDocument (elems s' n) = d \<and> parent (elems s' n) = parent (elems s n)"
  shows "dom_ok s' d"
proof -
  from ok have o: "set (directChildren (doms s d)) \<inter> set (dom_children (doms s d)) = {}"
    "\<And>n. n \<in> set (directChildren (doms s d)) \<Longrightarrow>
       n < next_elem s \<and> parentDocument (elems s n) = d \<and> parent (elems s n) = None"
    "\<And>n. n \<in> set (dom_children (doms s d)) \<Longrightarrow>
       n < next_elem s \<and> parentDocument (elems s n) = d \<and> parent (elems s n) \<noteq> None"
    by (simp_all add: dom_ok_def)
  have 1: "set (directChildren (doms s' d)) \<inter> set (dom_children (doms s' d)) = {}"
    using o(1) D(1) C(1) by blast
  have 2: "n < next_elem s' \<and> parentDocument (elems s' n) = d \<and> parent (elems s' n) = None"
    if "n \<in> set (directChildren (doms s' d))" for n
  proof -
    from that D(1) have "n \<in> set (directChildren (doms s d))" by blast
    from o(2) [OF this] el [of n] ne show ?thesis by simp
  qed
  have 3: "n < next_elem s' \<and> parentDocument (elems s' n) = d \<and> parent (elems s' n) \<noteq> None"
    if "n \<in> set (dom_children (doms s' d))" for n
  proof -
    from that C(1) have "n \<in> set (dom_children (doms s d))" by blast
    from o(3) [OF this] el [of n] ne show ?thesis by simp
  qed
  from D(2) C(2) 1 2 3 show ?thesis unfolding dom_ok_def by simp
qed

lemma tree_inv_step:
  assumes inv: "tree_inv s"
    and nd: "next_dom s' = next_dom s" and ne: "next_elem s \<le> next_elem s'"
    and other: "\<And>d'. d' \<noteq> d0 \<Longrightarrow> doms s' d' = doms s d'"
    and pd: "\<And>n. n < next_elem s \<Longrightarrow> parentDocument (elems s' n) = parentDocument (elems s n)"
    and par: "\<And>n. n < next_elem s \<Longrightarrow> parentDocument (elems s n) \<noteq> d0 \<Longrightarrow>
        parent (elems s' n) = parent (elems s n)"
    and d0: "d0 < next_dom s \<Longrightarrow> dom_ok s' d0"
  shows "tree_inv s'"
  unfolding tree_inv_def
proof (intro allI impI)
  fix d assume d: "d < next_dom s'"
  show "dom_ok s' d"
  proof (cases "d = d0")
    case True
    with d nd d0 show ?thesis by simp
  next
    case False
    from inv d nd have ok: "dom_ok s d" by (simp add: tree_inv_def)
    from other [OF False] have l: "doms s' d = doms s d" .
    show ?thesis
    proof (rule dom_ok_shrink [OF ok _ _ _ _ ne])
      show "set (directChildren (doms s' d)) \<subseteq> set (directChildren (doms s d))"
        by (simp add: l)
      show "distinct (directChildren (doms s' d))" using ok by (simp add: l dom_ok_def)
      show "set (dom_children (doms s' d)) \<subseteq> set (dom_children (doms s d))"
        by (simp add: l)
      show "distinct (dom_children (doms s' d))" using ok by (simp add: l dom_ok_def)
      fix n assume n: "n < next_elem s" "parentDocument (elems s n) = d"
      with False have "parentDocument (elems s n) \<noteq> d0" by simp
      from pd [OF n(1)] par [OF n(1) this] n(2)
      show "parentDocument (elems s' n) = d \<and> parent (elems s' n) = parent (elems s n)"
        by simp
    qed
  qed
qed

lemma tree_inv_dom_ok: "tree_inv s \<Longrightarrow> d < next_dom s \<Longrightarrow> dom_ok s d"
  by (simp add: tree_inv_def)

lemma dom_ok_put_D:
  assumes ok: "dom_ok s d"
    and D: "set (directChildren (doms s' d)) \<subseteq> insert x (set (directChildren (doms s d)))"
      "distinct (directChildren (doms s' d))"
    and C: "dom_children (doms s' d) = dom_children (doms s d)"
    and x: "x \<notin> set (dom_children (doms s d))" "x < next_elem s"
      "parentDocument (elems s' x) = d" "parent (elems s' x) = None"
    and ne: "next_elem s \<le> next_elem s'"
    and el: "\<And>n. n < next_elem s \<Longrightarrow> n \<noteq> x \<Longrightarrow> parentDocument (elems s n) = d \<Longrightarrow>
        parentDocument (elems s' n) = d \<and> parent (elems s' n) = parent (elems s n)"
  shows "dom_ok s' d"
proof -
  from ok have o: "set (directChildren (doms s d)) \<inter> set (dom_children (doms s d)) = {}"
    "distinct (dom_children (doms s d))"
    "\<And>n. n \<in> set (directChildren (doms s d)) \<Longrightarrow>
       n < next_elem s \<and> parentDocument (elems s n) = d \<and> parent (elems s n) = None"
    "\<And>n. n \<in> set (dom_children (doms s d)) \<Longrightarrow>
       n < next_elem s \<and> parentDocument (elems s n) = d \<and> parent (elems s n) \<noteq> None"
    by (simp_all add: dom_ok_def)
  have 1: "set (directChildren (doms s' d)) \<inter> set (dom_children (doms s' d)) = {}"
    using o(1) D(1) x(1) unfolding C by blast
  have 2: "n < next_elem s' \<and> parentDocument (elems s' n) = d \<and> parent (elems s' n) = None"
    if "n \<in> set (directChildren (doms s' d))" for n
  proof (cases "n = x")
    case True
    with x ne show ?thesis by simp
  next
    case False
    with that D(1) have "n \<in> set (directChildren (doms s d))" by blast
    from o(3) [OF this] el [of n] False ne show ?thesis by simp
  qed
  have 3: "n < next_elem s' \<and> parentDocument (elems s' n) = d \<and> parent (elems s' n) \<noteq> None"
    if "n \<in> set (dom_children (doms s' d))" for n
  proof -
    from that have n: "n \<in> set (dom_children (doms s d))" by (simp add: C)
    with x(1) have "n \<noteq> x" by blast
    with o(4) [OF n] el [of n] ne show ?thesis by simp
  qed
  from D(2) o(2) 1 2 3 show ?thesis unfolding dom_ok_def by (simp add: C)
qed

lemma dom_ok_put_C:
  assumes ok: "dom_ok s d"
    and C: "set (dom_children (doms s' d)) \<subseteq> insert x (set (dom_children (doms s d)))"
      "distinct (dom_children (doms s' d))"
    and D: "directChildren (doms s' d) = directChildren (doms s d)"
    and x: "x \<notin> set (directChildren (doms s d))" "x < next_elem s"
      "parentDocument (elems s' x) = d" "parent (elems s' x) \<noteq> None"
    and ne: "next_elem s \<le> next_elem s'"
    and el: "\<And>n. n < next_elem s \<Longrightarrow> n \<noteq> x \<Longrightarrow> parentDocument (elems s n) = d \<Longrightarrow>
        parentDocument (elems s' n) = d \<and> parent (elems s' n) = parent (elems s n)"
  shows "dom_ok s' d"
proof -
  from ok have o: "set (directChildren (doms s d)) \<inter> set (dom_children (doms s d)) = {}"
    "distinct (directChildren (doms s d))"
    "\<And>n. n \<in> set (directChildren (doms s d)) \<Longrightarrow>
       n < next_elem s \<and> parentDocument (elems s n) = d \<and> parent (elems s n) = None"
    "\<And>n. n \<in> set (dom_children (doms s d)) \<Longrightarrow>
       n < next_elem s \<and> parentDocument (elems s n) = d \<and> parent (elems s n) \<noteq> None"
    by (simp_all add: dom_ok_def)
  have 1: "set (directChildren (doms s' d)) \<inter> set (dom_children (doms s' d)) = {}"
    using o(1) C(1) x(1) unfolding D by blast
  have 2: "n < next_elem s' \<and> parentDocument (elems s' n) = d \<and> parent (elems s' n) = None"
    if "n \<in> set (directChildren (doms s' d))" for n
  proof -
    from that have n: "n \<in> set (directChildren (doms s d))" by (simp add: D)
    with x(1) have "n \<noteq> x" by blast
    with o(3) [OF n] el [of n] ne show ?thesis by simp
  qed
  have 3: "n < next_elem s' \<and> parentDocument (elems s' n) = d \<and> parent (elems s' n) \<noteq> None"
    if "n \<in> set (dom_children (doms s' d))" for n
  proof (cases "n = x")
    case True
    with x ne show ?thesis by simp
  next
    case False
    with that C(1) have "n \<in> set (dom_children (doms s d))" by blast
    from o(4) [OF this] el [of n] False ne show ?thesis by simp
  qed
  from C(2) o(2) 1 2 3 show ?thesis unfolding dom_ok_def by (simp add: D)
qed

lemma tree_inv_frame: "tree_inv s \<Longrightarrow> frame s s1 \<Longrightarrow> tree_inv s1"
proof (rule tree_inv_step [where ?d0.0 = 0])
  assume inv: "tree_inv s" and f: "frame s s1"
  from f show "next_dom s1 = next_dom s" "next_elem s \<le> next_elem s1"
    by (simp_all add: frame_def)
  from f show "\<And>d'. d' \<noteq> 0 \<Longrightarrow> doms s1 d' = doms s d'" by (simp add: frame_def)
  from f show "\<And>n. n < next_elem s \<Longrightarrow> parentDocument (elems s1 n) = parentDocument (elems s n)"
    by (simp add: frame_def)
  from f show "\<And>n. n < next_elem s \<Longrightarrow> parentDocument (elems s n) \<noteq> 0 \<Longrightarrow>
      parent (elems s1 n) = parent (elems s n)"
    by (simp add: frame_def)
  assume "0 < next_dom s"
  with inv have ok: "dom_ok s 0" by (rule tree_inv_dom_ok)
  from f have d: "doms s1 = doms s" by (simp add: frame_def)
  show "dom_ok s1 0"
  proof (rule dom_ok_shrink [OF ok])
    from ok show "distinct (directChildren (doms s1 0))" "distinct (dom_children (doms s1 0))"
      by (simp_all add: d dom_ok_def)
    from f show "next_elem s \<le> next_elem s1" by (simp add: frame_def)
    from f show "\<And>n. n < next_elem s \<Longrightarrow> parentDocument (elems s n) = 0 \<Longrightarrow>
      parentDocument (elems s1 n) = 0 \<and> parent (elems s1 n) = parent (elems s n)"
      by (simp add: frame_def)
  qed (simp_all add: d)
qed assumption

lemma tree_inv_notify [simp]: "tree_inv (notify_self s e c) = tree_inv s"
  by (simp add: tree_inv_def dom_ok_def notify_self_def notifyTreeChange_def)

lemma tree_inv_VirtualDOM_appendChild:
  assumes inv: "tree_inv s" and u: "unplaced s d n"
  shows "tree_inv (VirtualDOM_appendChild s d n)"
proof (cases "isRemoved (elems s n)")
  case True
  with inv show ?thesis by (simp add: VirtualDOM_appendChild_def)
next
  case False
  let ?s' = "upd_elem (upd_dom s d (\<lambda>t. t\<lparr>directChildren := directChildren t @ [n]\<rparr>))
      n (\<lambda>x. x\<lparr>parent := None\<rparr>)"
  from u have u': "n < next_elem s" "d < next_dom s" "parentDocument (elems s n) = d"
    "n \<notin> set (directChildren (doms s d))" "n \<notin> set (dom_children (doms s d))"
    by (simp_all add: unplaced_def)
  have "tree_inv ?s'"
  proof (rule tree_inv_step [OF inv, where ?d0.0 = d])
    show "next_dom ?s' = next_dom s" "next_elem s \<le> next_elem ?s'"
      by (simp_all add: upd_elem_def upd_dom_def)
    show "\<And>d'. d' \<noteq> d \<Longrightarrow> doms ?s' d' = doms s d'" by (simp add: upd_elem_def upd_dom_def)
    show "\<And>m. m < next_elem s \<Longrightarrow> parentDocument (elems ?s' m) = parentDocument (elems s m)"
      by (simp add: upd_elem_def upd_dom_def)
    show "\<And>m. m < next_elem s \<Longrightarrow> parentDocument (elems s m) \<noteq> d \<Longrightarrow>
        parent (elems ?s' m) = parent (elems s m)"
      using u'(3) by (auto simp: upd_elem_def upd_dom_def)
    from inv u'(2) have ok: "dom_ok s d" by (rule tree_inv_dom_ok)
    show "dom_ok ?s' d"
    proof (rule dom_ok_put_D [OF ok, where x = n])
      from ok u'(4) show "distinct (directChildren (doms ?s' d))"
        by (simp add: upd_elem_def upd_dom_def dom_ok_def)
    qed (use u' in \<open>auto simp: upd_elem_def upd_dom_def\<close>)
  qed
  with False show ?thesis by (simp add: VirtualDOM_appendChild_def)
qed

lemma tree_inv_VirtualDOM_insertBefore:
  assumes inv: "tree_inv s" and u: "unplaced s d n" and p: "parent (elems s n) = None"
  shows "tree_inv (VirtualDOM_insertBefore s d n r)"
proof (cases "isRemoved (elems s n)")
  case True
  with inv show ?thesis by (simp add: VirtualDOM_insertBefore_def)
next
  case False
  let ?s' = "upd_dom s d (\<lambda>t. t\<lparr>directChildren :=
      splice (directChildren t) (indexOf (directChildren (doms s d)) r) 0 [n]\<rparr>)"
  from u have u': "n < next_elem s" "d < next_dom s" "parentDocument (elems s n) = d"
    "n \<notin> set (directChildren (doms s d))" "n \<notin> set (dom_children (doms s d))"
    by (simp_all add: unplaced_def)
  have "tree_inv ?s'"
  proof (rule tree_inv_step [OF inv, where ?d0.0 = d])
    show "next_dom ?s' = next_dom s" "next_elem s \<le> next_elem ?s'"
      by (simp_all add: upd_dom_def)
    show "\<And>d'. d' \<noteq> d \<Longrightarrow> doms ?s' d' = doms s d'" by (simp add: upd_dom_def)
    show "\<And>m. m < next_elem s \<Longrightarrow> parentDocument (elems ?s' m) = parentDocument (elems s m)"
      by (simp add: upd_dom_def)
    show "\<And>m. m < next_elem s \<Longrightarrow> parentDocument (elems s m) \<noteq> d \<Longrightarrow>
        parent (elems ?s' m) = parent (elems s m)"
      by (simp add: upd_dom_def)
    from inv u'(2) have ok: "dom_ok s d" by (rule tree_inv_dom_ok)
    show "dom_ok ?s' d"
    proof (rule dom_ok_put_D [OF ok, where x = n])
      from ok u'(4) show "distinct (directChildren (doms ?s' d))"
        by (simp add: upd_dom_def dom_ok_def splice_distinct_insert)
      show "set (directChildren (doms ?s' d)) \<subseteq> insert n (set (directChildren (doms s d)))"
        by (simp add: upd_dom_def splice_set_insert)
    qed (use u' p in \<open>auto simp: upd_dom_def\<close>)
  qed
  with False show ?thesis by (simp add: VirtualDOM_insertBefore_def Let_def)
qed

lemma tree_inv_VirtualDOM_replaceChild:
  assumes inv: "tree_inv s" and u: "unplaced s d n" and p: "parent (elems s n) = None"
    and old: "old \<in> set (directChildren (doms s d))"
    and r: "VirtualDOM_replaceChild s d n old = Inr s'"
  shows "tree_inv s'"
proof (cases "isRemoved (elems s n)")
  case True
  with inv r show ?thesis by (simp add: VirtualDOM_replaceChild_def)
next
  case False
  let ?s' = "upd_dom s d (\<lambda>t. t\<lparr>directChildren :=
      assign_at (directChildren t) (indexOf (directChildren (doms s d)) old) n\<rparr>)"
  from u have u': "n < next_elem s" "d < next_dom s" "parentDocument (elems s n) = d"
    "n \<notin> set (directChildren (doms s d))" "n \<notin> set (dom_children (doms s d))"
    by (simp_all add: unplaced_def)
  have "tree_inv ?s'"
  proof (rule tree_inv_step [OF inv, where ?d0.0 = d])
    show "next_dom ?s' = next_dom s" "next_elem s \<le> next_elem ?s'"
      by (simp_all add: upd_dom_def)
    show "\<And>d'. d' \<noteq> d \<Longrightarrow> doms ?s' d' = doms s d'" by (simp add: upd_dom_def)
    show "\<And>m. m < next_elem s \<Longrightarrow> parentDocument (elems ?s' m) = parentDocument (elems s m)"
      by (simp add: upd_dom_def)
    show "\<And>m. m < next_elem s \<Longrightarrow> parentDocument (elems s m) \<noteq> d \<Longrightarrow>
        parent (elems ?s' m) = parent (elems s m)"
      by (simp add: upd_dom_def)
    from inv u'(2) have ok: "dom_ok s d" by (rule tree_inv_dom_ok)
    show "dom_ok ?s' d"
    proof (rule dom_ok_put_D [OF ok, where x = n])
      from ok u'(4) show "distinct (directChildren (doms ?s' d))"
        by (simp add: upd_dom_def dom_ok_def assign_at_distinct)
      show "set (directChildren (doms ?s' d)) \<subseteq> insert n (set (directChildren (doms s d)))"
        by (simp add: upd_dom_def assign_at_set)
    qed (use u' p in \<open>auto simp: upd_dom_def\<close>)
  qed
  with False old r show ?thesis
    by (simp add: VirtualDOM_replaceChild_def Let_def array_includes_def)
qed

lemma tree_inv_shrink:
  assumes inv: "tree_inv s"
    and nd: "next_dom s' = next_dom s" and ne: "next_elem s \<le> next_elem s'"
    and D: "\<And>d. set (directChildren (doms s' d)) \<subseteq> set (directChildren (doms s d)) \<and>
        (distinct (directChildren (doms s d)) \<longrightarrow> distinct (directChildren (doms s' d)))"
    and C: "\<And>d. set (dom_children (doms s' d)) \<subseteq> set (dom_children (doms s d)) \<and>
        (distinct (dom_children (doms s d)) \<longrightarrow> distinct (dom_children (doms s' d)))"
    and el: "\<And>n. n < next_elem s \<Longrightarrow>
        parentDocument (elems s' n) = parentDocument (elems s n) \<and>
        parent (elems s' n) = parent (elems s n)"
  shows "tree_inv s'"
  unfolding tree_inv_def
proof (intro allI impI)
  fix d assume "d < next_dom s'"
  with inv nd have ok: "dom_ok s d" by (simp add: tree_inv_def)
  show "dom_ok s' d"
  proof (rule dom_ok_shrink [OF ok _ _ _ _ ne])
    from D [of d] ok show "set (directChildren (doms s' d)) \<subseteq> set (directChildren (doms s d))"
      "distinct (directChildren (doms s' d))" by (simp_all add: dom_ok_def)
    from C [of d] ok show "set (dom_children (doms s' d)) \<subseteq> set (dom_children (doms s d))"
      "distinct (dom_children (doms s' d))" by (simp_all add: dom_ok_def)
    fix n assume "n < next_elem s" "parentDocument (elems s n) = d"
    with el [of n] show "parentDocument (elems s' n) = d \<and> parent (elems s' n) = parent (elems s n)"
      by simp
  qed
qed

lemma in_splice_delete: "x \<in> set (splice xs i k []) \<Longrightarrow> x \<in> set xs"
  using splice_set_delete [of xs i k] by blast

lemma tree_inv_VirtualDOM_removeChild:
  assumes inv: "tree_inv s" and r: "VirtualDOM_removeChild s d n = Inr s'"
  shows "tree_inv s'"
proof (rule tree_inv_shrink [OF inv])
  from r show "next_dom s' = next_dom s" "next_elem s \<le> next_elem s'"
    by (auto simp: VirtualDOM_removeChild_def Let_def upd_elem_def upd_dom_def split: if_splits)
  from r show "\<And>d. set (directChildren (doms s' d)) \<subseteq> set (directChildren (doms s d)) \<and>
        (distinct (directChildren (doms s d)) \<longrightarrow> distinct (directChildren (doms s' d)))"
    by (auto simp: VirtualDOM_removeChild_def Let_def upd_elem_def upd_dom_def splice_distinct_delete
        split: if_splits dest: in_splice_delete)
  from r show "\<And>d. set (dom_children (doms s' d)) \<subseteq> set (dom_children (doms s d)) \<and>
        (distinct (dom_children (doms s d)) \<longrightarrow> distinct (dom_children (doms s' d)))"
    by (auto simp: VirtualDOM_removeChild_def Let_def upd_elem_def upd_dom_def splice_distinct_delete
        split: if_splits dest: in_splice_delete)
  from r show "\<And>n. n < next_elem s \<Longrightarrow>
        parentDocument (elems s' n) = parentDocument (elems s n) \<and>
        parent (elems s' n) = parent (elems s n)"
    by (auto simp: VirtualDOM_removeChild_def Let_def upd_elem_def upd_dom_def split: if_splits)
qed

lemma tree_inv_VirtualElement_removeChild:
  assumes inv: "tree_inv s" and r: "VirtualElement_removeChild depth s e c = Inr s'"
  shows "tree_inv s'"
proof -
  from r obtain s1 k where c: "cloneNode depth s e True = Inr (s1, k)"
    by (auto simp: VirtualElement_removeChild_def split: sum.splits)
  from cloneNode_frame [OF c] have f: "frame s s1" by simp
  with inv have inv1: "tree_inv s1" by (rule tree_inv_frame)
  define s3 where "s3 = upd_elem (upd_elem s1 e
        (\<lambda>x. x\<lparr>children := splice (children x) (indexOf (children x) c) 1 []\<rparr>))
        c (\<lambda>x. x\<lparr>isRemoved := True\<rparr>)"
  define m where "m = upd_dom s3 (parentDocument (elems s3 e))
      (\<lambda>t. t\<lparr>dom_children := splice (dom_children t) (indexOf (dom_children t) c) 1 []\<rparr>)"
  have "tree_inv m"
  proof (rule tree_inv_shrink [OF inv1])
    show "next_dom m = next_dom s1" "next_elem s1 \<le> next_elem m"
      by (simp_all add: m_def s3_def upd_elem_def upd_dom_def)
    show "\<And>d. set (directChildren (doms m d)) \<subseteq> set (directChildren (doms s1 d)) \<and>
        (distinct (directChildren (doms s1 d)) \<longrightarrow> distinct (directChildren (doms m d)))"
      by (simp add: m_def s3_def upd_elem_def upd_dom_def)
    show "\<And>d. set (dom_children (doms m d)) \<subseteq> set (dom_children (doms s1 d)) \<and>
        (distinct (dom_children (doms s1 d)) \<longrightarrow> distinct (dom_children (doms m d)))"
      by (simp add: m_def s3_def upd_elem_def upd_dom_def splice_set_delete splice_distinct_delete)
    show "\<And>n. n < next_elem s1 \<Longrightarrow>
        parentDocument (elems m n) = parentDocument (elems s1 n) \<and>
        parent (elems m n) = parent (elems s1 n)"
      by (simp add: m_def s3_def upd_elem_def upd_dom_def)
  qed
  moreover from r c have "s' = notify_self m e k"
    by (simp add: VirtualElement_removeChild_def Let_def m_def s3_def)
  ultimately show ?thesis by simp
qed

lemma tree_inv_VirtualElement_remove:
  assumes inv: "tree_inv s" and r: "VirtualElement_remove depth s e = Inr s'"
  shows "tree_inv s'"
proof -
  from r obtain s1 k where c: "cloneNode depth s e True = Inr (s1, k)"
    by (auto simp: VirtualElement_remove_def split: sum.splits)
  from cloneNode_frame [OF c] have f: "frame s s1" by simp
  with inv have inv1: "tree_inv s1" by (rule tree_inv_frame)
  have n: "tree_inv (upd_elem s1 e (\<lambda>x. x\<lparr>isRemoved := True\<rparr>))"
    by (rule tree_inv_shrink [OF inv1]) (simp_all add: upd_elem_def)
  from r c inv1 n show ?thesis
    by (auto simp: VirtualElement_remove_def split: if_splits sum.splits option.splits
        dest: tree_inv_VirtualDOM_removeChild tree_inv_VirtualElement_removeChild)
qed

lemma tree_inv_put_child:
  assumes inv1: "tree_inv s1"
    and u: "unplaced s1 d child" and ed: "parentDocument (elems s1 e) = d"
    and s3: "s3 = upd_elem (upd_elem s1 e (\<lambda>x. x\<lparr>children := cs x\<rparr>)) child (\<lambda>x. x\<lparr>parent := Some e\<rparr>)"
    and m: "m = upd_dom s3 (parentDocument (elems s3 e)) (\<lambda>t. t\<lparr>dom_children := g (dom_children t)\<rparr>)"
    and g: "set (g (dom_children (doms s1 d))) \<subseteq> insert child (set (dom_children (doms s1 d)))"
      "distinct (g (dom_children (doms s1 d)))"
  shows "tree_inv m"
proof -
  from u have u': "child < next_elem s1" "d < next_dom s1" "parentDocument (elems s1 child) = d"
    "child \<notin> set (directChildren (doms s1 d))" "child \<notin> set (dom_children (doms s1 d))"
    by (simp_all add: unplaced_def)
  from ed have pd3: "parentDocument (elems s3 e) = d"
    using u'(3) by (simp add: s3 upd_elem_def)
  have md: "doms m = (doms s1)(d := (doms s1 d)\<lparr>dom_children := g (dom_children (doms s1 d))\<rparr>)"
    by (simp add: m pd3 upd_dom_def) (simp add: s3 upd_elem_def)
  have me: "elems m = elems s3" "next_elem m = next_elem s1" "next_dom m = next_dom s1"
    by (simp_all add: m upd_dom_def s3 upd_elem_def)
  have e3: "parentDocument (elems s3 n) = parentDocument (elems s1 n)"
    "n \<noteq> child \<Longrightarrow> parent (elems s3 n) = parent (elems s1 n)"
    "parent (elems s3 child) = Some e" for n
    by (simp_all add: s3 upd_elem_def)
  show ?thesis
  proof (rule tree_inv_step [OF inv1, where ?d0.0 = d])
    show "next_dom m = next_dom s1" "next_elem s1 \<le> next_elem m" by (simp_all add: me)
    show "\<And>d'. d' \<noteq> d \<Longrightarrow> doms m d' = doms s1 d'" by (simp add: md)
    show "\<And>n. n < next_elem s1 \<Longrightarrow> parentDocument (elems m n) = parentDocument (elems s1 n)"
      by (simp add: me e3)
    show "parent (elems m n) = parent (elems s1 n)"
      if "n < next_elem s1" "parentDocument (elems s1 n) \<noteq> d" for n
    proof -
      from that(2) u'(3) have "n \<noteq> child" by auto
      then show ?thesis by (simp add: me e3)
    qed
    from inv1 u'(2) have ok: "dom_ok s1 d" by (rule tree_inv_dom_ok)
    show "dom_ok m d"
    proof (rule dom_ok_put_C [OF ok, where x = child])
      from g show "set (dom_children (doms m d)) \<subseteq> insert child (set (dom_children (doms s1 d)))"
        "distinct (dom_children (doms m d))" by (simp_all add: md)
      show "directChildren (doms m d) = directChildren (doms s1 d)" by (simp add: md)
      from u' show "child \<notin> set (directChildren (doms s1 d))" "child < next_elem s1" by simp_all
      from u' show "parentDocument (elems m child) = d" by (simp add: me e3)
      show "parent (elems m child) \<noteq> None" by (simp add: me e3)
      show "next_elem s1 \<le> next_elem m" by (simp add: me)
      show "\<And>n. n < next_elem s1 \<Longrightarrow> n \<noteq> child \<Longrightarrow> parentDocument (elems s1 n) = d \<Longrightarrow>
        parentDocument (elems m n) = d \<and> parent (elems m n) = parent (elems s1 n)"
        by (simp add: me e3)
    qed
  qed
qed

lemma unplaced_frame:
  "frame s s1 \<Longrightarrow> unplaced s d child \<Longrightarrow> unplaced s1 d child"
  by (auto simp: frame_def unplaced_def)

lemma tree_inv_VirtualElement_appendChild:
  assumes inv: "tree_inv s" and e: "e < next_elem s"
    and u: "unplaced s (parentDocument (elems s e)) child"
    and r: "VirtualElement_appendChild depth s e child = Inr s'"
  shows "tree_inv s'"
proof -
  from r obtain s1 k where c: "cloneNode depth s e True = Inr (s1, k)"
    by (auto simp: VirtualElement_appendChild_def split: sum.splits)
  from cloneNode_frame [OF c] have f: "frame s s1" by simp
  with inv have inv1: "tree_inv s1" by (rule tree_inv_frame)
  from f e have ee: "elems s1 e = elems s e" by (simp add: frame_def)
  from unplaced_frame [OF f u] have u1: "unplaced s1 (parentDocument (elems s e)) child" .
  define s3 where "s3 = upd_elem (upd_elem s1 e (\<lambda>x. x\<lparr>children := children x @ [child]\<rparr>))
      child (\<lambda>x. x\<lparr>parent := Some e\<rparr>)"
  define m where "m = upd_dom s3 (parentDocument (elems s3 e))
      (\<lambda>t. t\<lparr>dom_children := dom_children t @ [child]\<rparr>)"
  from u1 inv1 have "child \<notin> set (dom_children (doms s1 (parentDocument (elems s e))))"
    "distinct (dom_children (doms s1 (parentDocument (elems s e))))"
    by (simp_all add: unplaced_def tree_inv_def dom_ok_def)
  then have "tree_inv m"
    by (intro tree_inv_put_child [OF inv1 u1 _ s3_def, where g = "\<lambda>xs. xs @ [child]"])
      (auto simp: ee m_def)
  moreover from r c have "s' = notify_self m e k"
    by (simp add: VirtualElement_appendChild_def Let_def m_def s3_def)
  ultimately show ?thesis by simp
qed

lemma tree_inv_VirtualElement_replaceChild:
  assumes inv: "tree_inv s" and e: "e < next_elem s"
    and u: "unplaced s (parentDocument (elems s e)) child"
    and r: "VirtualElement_replaceChild depth s e child old = Inr s'"
  shows "tree_inv s'"
proof -
  from r obtain s1 k where c: "cloneNode depth s e True = Inr (s1, k)"
    by (auto simp: VirtualElement_replaceChild_def split: sum.splits if_splits)
  from cloneNode_frame [OF c] have f: "frame s s1" by simp
  with inv have inv1: "tree_inv s1" by (rule tree_inv_frame)
  from f e have ee: "elems s1 e = elems s e" by (simp add: frame_def)
  from unplaced_frame [OF f u] have u1: "unplaced s1 (parentDocument (elems s e)) child" .
  define s3 where "s3 = upd_elem (upd_elem s1 e
        (\<lambda>x. x\<lparr>children := assign_at (children x) (indexOf (children x) old) child\<rparr>))
      child (\<lambda>x. x\<lparr>parent := Some e\<rparr>)"
  define m where "m = upd_dom s3 (parentDocument (elems s3 e))
      (\<lambda>t. t\<lparr>dom_children := assign_at (dom_children t) (indexOf (dom_children t) old) child\<rparr>)"
  from u1 inv1 have "child \<notin> set (dom_children (doms s1 (parentDocument (elems s e))))"
    "distinct (dom_children (doms s1 (parentDocument (elems s e))))"
    by (simp_all add: unplaced_def tree_inv_def dom_ok_def)
  then have "tree_inv m"
    by (intro tree_inv_put_child [OF inv1 u1 _ s3_def,
          where g = "\<lambda>xs. assign_at xs (indexOf xs old) child"])
      (auto simp: ee m_def assign_at_distinct dest: assign_at_set [THEN subsetD])
  moreover from r c have "s' = notify_self m e k"
    by (simp add: VirtualElement_replaceChild_def Let_def m_def s3_def split: if_splits)
  ultimately show ?thesis by simp
qed


text \<open>
  C2, as stated: every structural operation keeps every node in exactly one of the three
  states. Two runs from stores in which every node is in exactly one state. In \<open>scene_one\<close>
  the element \<open>0\<close> is top-level and \<open>1\<close> is new: \<^verbatim>\<open>prepend(1)\<close> on \<open>0\<close> puts \<open>1\<close> into
  the top-level list and sets its parent to \<open>0\<close>, so \<open>1\<close> is top-level with a parent: none
  of the three states. In \<open>scene_both\<close> the element \<open>1\<close> is in both lists of the tree with
  no parent (top-level): the tree's \<^verbatim>\<open>removeChild(1)\<close> takes it out of the top-level list
  only, leaving it in the list of descendants without a parent: none of the three states.
\<close>

theorem placement_invariant_counterexample:
  "one_state scene_one 0 \<and> one_state scene_one 1 \<and> one_state scene_one 2 \<and> one_state scene_one 3 \<and>
   directChildren (doms (the_heap (VirtualElement_prepend 1 scene_one 0 1)) 0) = [1, 0] \<and>
   dom_children (doms (the_heap (VirtualElement_prepend 1 scene_one 0 1)) 0) = [] \<and>
   parent (elems (the_heap (VirtualElement_prepend 1 scene_one 0 1)) 1) = Some 0 \<and>
   \<not> one_state (the_heap (VirtualElement_prepend 1 scene_one 0 1)) 1 \<and>
   one_state scene_both 0 \<and> one_state scene_both 1 \<and> one_state scene_both 2 \<and>
   one_state scene_both 3 \<and> one_state scene_both 4 \<and>
   directChildren (doms (the_heap (VirtualDOM_removeChild scene_both 0 1)) 0) = [0] \<and>
   dom_children (doms (the_heap (VirtualDOM_removeChild scene_both 0 1)) 0) = [1] \<and>
   parent (elems (the_heap (VirtualDOM_removeChild scene_both 0 1)) 1) = None \<and>
   \<not> one_state (the_heap (VirtualDOM_removeChild scene_both 0 1)) 1"
  by code_simp

text \<open>
  C2, amended: in a store where every tree's two lists have no duplicates and no node in
  common, every listed node exists and is owned by that tree, top-level nodes have no
  parent and nodes in the list of descendants have one, every node of an existing tree is
  in exactly one of the three states, and the following operations keep the store such:
  the tree's \<^verbatim>\<open>appendChild\<close> of a node of this tree that is in neither list; the tree's
  \<^verbatim>\<open>insertBefore\<close> of such a node whose parent is unset, and its \<^verbatim>\<open>replaceChild\<close> by
  such a node of a top-level node; an element's \<^verbatim>\<open>appendChild\<close> and \<^verbatim>\<open>replaceChild\<close>
  with a node of the element's tree that is in neither list; and the tree's
  \<^verbatim>\<open>removeChild\<close>, an element's \<^verbatim>\<open>removeChild\<close> and \<^verbatim>\<open>remove\<close> with any argument.
  \<^verbatim>\<open>prepend\<close> is not part of the statement.
\<close>

theorem placement_invariant_preserved:
  "tree_inv s \<longrightarrow>
     (\<forall>x. parentDocument (elems s x) < next_dom s \<longrightarrow> one_state s x) \<and>
     (unplaced s d n \<longrightarrow> tree_inv (VirtualDOM_appendChild s d n)) \<and>
     (unplaced s d n \<and> parent (elems s n) = None \<longrightarrow>
        tree_inv (VirtualDOM_insertBefore s d n r)) \<and>
     (\<forall>s'. unplaced s d n \<and> parent (elems s n) = None \<and>
        old \<in> set (directChildren (doms s d)) \<and>
        VirtualDOM_replaceChild s d n old = Inr s' \<longrightarrow> tree_inv s') \<and>
     (\<forall>s'. VirtualDOM_removeChild s d n = Inr s' \<longrightarrow> tree_inv s') \<and>
     (\<forall>s'. e < next_elem s \<and> unplaced s (parentDocument (elems s e)) n \<and>
        VirtualElement_appendChild depth s e n = Inr s' \<longrightarrow> tree_inv s') \<and>
     (\<forall>s'. e < next_elem s \<and> unplaced s (parentDocument (elems s e)) n \<and>
        VirtualElement_replaceChild depth s e n old = Inr s' \<longrightarrow> tree_inv s') \<and>
     (\<forall>s'. VirtualElement_removeChild depth s e n = Inr s' \<longrightarrow> tree_inv s') \<and>
     (\<forall>s'. VirtualElement_remove depth s e = Inr s' \<longrightarrow> tree_inv s')"
proof
  assume inv: "tree_inv s"
  show "(\<forall>x. parentDocument (elems s x) < next_dom s \<longrightarrow> one_state s x) \<and>
     (unplaced s d n \<longrightarrow> tree_inv (VirtualDOM_appendChild s d n)) \<and>
     (unplaced s d n \<and> parent (elems s n) = None \<longrightarrow>
        tree_inv (VirtualDOM_insertBefore s d n r)) \<and>
     (\<forall>s'. unplaced s d n \<and> parent (elems s n) = None \<and>
        old \<in> set (directChildren (doms s d)) \<and>
        VirtualDOM_replaceChild s d n old = Inr s' \<longrightarrow> tree_inv s') \<and>
     (\<forall>s'. VirtualDOM_removeChild s d n = Inr s' \<longrightarrow> tree_inv s') \<and>
     (\<forall>s'. e < next_elem s \<and> unplaced s (parentDocument (elems s e)) n \<and>
        VirtualElement_appendChild depth s e n = Inr s' \<longrightarrow> tree_inv s') \<and>
     (\<forall>s'. e < next_elem s \<and> unplaced s (parentDocument (elems s e)) n \<and>
        VirtualElement_replaceChild depth s e n old = Inr s' \<longrightarrow> tree_inv s') \<and>
     (\<forall>s'. VirtualElement_removeChild depth s e n = Inr s' \<longrightarrow> tree_inv s') \<and>
     (\<forall>s'. VirtualElement_remove depth s e = Inr s' \<longrightarrow> tree_inv s')"
    apply (intro conjI allI impI)
            apply (erule tree_inv_one_state [OF inv])
           apply (erule tree_inv_VirtualDOM_appendChild [OF inv])
          apply (elim conjE, erule (1) tree_inv_VirtualDOM_insertBefore [OF inv])
         apply (elim conjE, erule (3) tree_inv_VirtualDOM_replaceChild [OF inv])
        apply (erule tree_inv_VirtualDOM_removeChild [OF inv])
       apply (elim conjE, erule (2) tree_inv_VirtualElement_appendChild [OF inv])
      apply (elim conjE, erule (2) tree_inv_VirtualElement_replaceChild [OF inv])
     apply (erule tree_inv_VirtualElement_removeChild [OF inv])
    apply (erule tree_inv_VirtualElement_remove [OF inv])
    done
qed


lemma thrown_None: "thrown r = None \<Longrightarrow> r = Inr (the_heap r)"
  by (cases r) (simp_all add: thrown_def the_heap_def)

lemma scene_one_facts:
  "next_dom scene_one = 1"
  "next_elem scene_one = 4"
  "directChildren (doms scene_one 0) = [0]"
  "dom_children (doms scene_one 0) = []"
  "parentDocument (elems scene_one 0) = 0"
  "parentDocument (elems scene_one (Suc 0)) = 0"
  "parent (elems scene_one 0) = None"
  "thrown (VirtualElement_appendChild 1 scene_one 0 1) = None"
  by code_simp+

theorem placement_invariant_preserved_witness:
  "tree_inv scene_one \<and> unplaced scene_one 0 1 \<and>
   tree_inv (VirtualDOM_appendChild scene_one 0 1) \<and>
   tree_inv (the_heap (VirtualElement_appendChild 1 scene_one 0 1)) \<and>
   one_state scene_one 1"
proof -
  have inv: "tree_inv scene_one"
    by (simp add: tree_inv_def dom_ok_def scene_one_facts)
  have u: "unplaced scene_one 0 1"
    by (simp add: unplaced_def scene_one_facts)
  note T = placement_invariant_preserved [where s = scene_one and d = 0 and n = 1 and e = 0
      and depth = 1, THEN mp, OF inv]
  from T u have 1: "tree_inv (VirtualDOM_appendChild scene_one 0 1)" by blast
  from thrown_None [OF scene_one_facts(8)]
  have r: "VirtualElement_appendChild 1 scene_one 0 1 =
      Inr (the_heap (VirtualElement_appendChild 1 scene_one 0 1))" .
  have "(0::nat) < next_elem scene_one \<and> unplaced scene_one (parentDocument (elems scene_one 0)) 1"
    using u by (simp add: scene_one_facts)
  with T r have 2: "tree_inv (the_heap (VirtualElement_appendChild 1 scene_one 0 1))" by blast
  have "parentDocument (elems scene_one 1) < next_dom scene_one" by (simp add: scene_one_facts)
  with T have 3: "one_state scene_one 1" by blast
  from inv u 1 2 3 show ?thesis by blast
qed

end
